theory Spec2Isabelle
  imports Complex_Main "HOL-Library.Sublist" "HOL-Library.Multiset"
begin

section \<open>JavaScript values as the components see them\<close>

text \<open>
  The components receive \<^verbatim>\<open>data: any[][]\<close> produced by the spreadsheet codec
  (\<^verbatim>\<open>XLSX.utils.sheet_to_json(worksheet, { header: 1 })\<close>). A cell is a string, a
  number, a boolean, \<^verbatim>\<open>null\<close>, or is absent. Numbers are IEEE doubles in the source;
  here a finite number is the real it denotes (the two zeros are identified, which
  \<^verbatim>\<open>===\<close>, \<^verbatim>\<open><\<close>, truthiness and \<^verbatim>\<open>isNaN\<close> cannot tell apart), and rounding of
  decimal literals to the nearest double is not modelled.
\<close>

datatype jsnum = NaN | PosInf | NegInf | Fin real

datatype jsval = Undefined | Null | Bool bool | Num jsnum | Str string

text \<open>
  A row is a JavaScript array that may be sparse: \<open>None\<close> is a hole (an empty spreadsheet
  cell, which the codec leaves unassigned), \<open>Some v\<close> a stored value. \<^verbatim>\<open>row.length\<close>
  counts holes; reading a hole or an index out of range yields \<^verbatim>\<open>undefined\<close>.
\<close>

type_synonym row = "jsval option list"

definition cellAt :: "row \<Rightarrow> int \<Rightarrow> jsval" where
  "cellAt r i =
     (if 0 \<le> i \<and> nat i < length r
      then (case r ! nat i of None \<Rightarrow> Undefined | Some v \<Rightarrow> v)
      else Undefined)"

text \<open>\<^verbatim>\<open>headers.indexOf(name)\<close>: the first position holding the name, or \<open>-1\<close>.\<close>

fun indexOf :: "string list \<Rightarrow> string \<Rightarrow> int" where
  "indexOf [] s = -1"
| "indexOf (h # hs) s =
     (if h = s then 0 else (let i = indexOf hs s in if i = -1 then -1 else i + 1))"

text \<open>Truthiness (\<^verbatim>\<open>ToBoolean\<close>).\<close>

fun truthy :: "jsval \<Rightarrow> bool" where
  "truthy Undefined = False"
| "truthy Null = False"
| "truthy (Bool b) = b"
| "truthy (Num NaN) = False"
| "truthy (Num (Fin r)) = (r \<noteq> 0)"
| "truthy (Num _) = True"
| "truthy (Str s) = (s \<noteq> [])"

subsection \<open>Strings\<close>

text \<open>
  Strings are sequences of code units; the model covers the code units \<open>0..255\<close>
  (Latin-1). There \<^verbatim>\<open>toLowerCase\<close> maps \<open>A..Z\<close> (\<open>65..90\<close>) and the capitals
  \<open>192..222\<close> other than the multiplication sign \<open>215\<close> to the code unit \<open>32\<close> higher,
  and leaves every other code unit alone. Those capitals all have bit 5 clear, so adding
  \<open>32\<close> is setting that bit.
\<close>

definition toLowerChar :: "char \<Rightarrow> char" where
  "toLowerChar c =
     (let n = (of_char c :: nat)
      in if (65 \<le> n \<and> n \<le> 90) \<or> (192 \<le> n \<and> n \<le> 222 \<and> n \<noteq> 215)
         then (case c of Char b0 b1 b2 b3 b4 b5 b6 b7 \<Rightarrow> Char b0 b1 b2 b3 b4 True b6 b7)
         else c)"

definition toLowerCase :: "string \<Rightarrow> string" where
  "toLowerCase s = map toLowerChar s"

fun startsWith :: "string \<Rightarrow> string \<Rightarrow> bool" where
  "startsWith s [] = True"
| "startsWith [] (c # t) = False"
| "startsWith (d # s) (c # t) = (d = c \<and> startsWith s t)"

text \<open>\<^verbatim>\<open>s.includes(t)\<close>: \<open>t\<close> occurs in \<open>s\<close> as a contiguous substring.\<close>

fun includes_js :: "string \<Rightarrow> string \<Rightarrow> bool" where
  "includes_js [] t = (t = [])"
| "includes_js (c # s) t = (startsWith (c # s) t \<or> includes_js s t)"

text \<open>Decimal rendering of an integer, as \<^verbatim>\<open>Number.prototype.toString\<close> gives it.\<close>

definition digitChar :: "nat \<Rightarrow> char" where
  "digitChar d = ''0123456789'' ! d"

function showNat :: "nat \<Rightarrow> string" where
  "showNat n = (if n < 10 then [digitChar n] else showNat (n div 10) @ [digitChar (n mod 10)])"
  by pat_completeness auto
termination
  by (relation "measure id") auto

declare showNat.simps [simp del]

definition showInt :: "int \<Rightarrow> string" where
  "showInt i = (if i < 0 then CHR ''-'' # showNat (nat (- i)) else showNat (nat i))"

text \<open>
  \<^verbatim>\<open>String(v)\<close>. An integral number of magnitude at most \<open>2^53\<close> prints as its decimal
  digits. Every other double prints as the shortest digits that read back as the same
  double (zero-padded for integral values below \<open>10^21\<close>); that depends on the
  floating-point representation and is a parameter \<open>fmt\<close> of the model.
\<close>

fun ToString :: "(real \<Rightarrow> string) \<Rightarrow> jsval \<Rightarrow> string" where
  "ToString fmt Undefined = ''undefined''"
| "ToString fmt Null = ''null''"
| "ToString fmt (Bool b) = (if b then ''true'' else ''false'')"
| "ToString fmt (Num NaN) = ''NaN''"
| "ToString fmt (Num PosInf) = ''Infinity''"
| "ToString fmt (Num NegInf) = ''-Infinity''"
| "ToString fmt (Num (Fin r)) =
     (if real_of_int \<lfloor>r\<rfloor> = r \<and> \<bar>r\<bar> \<le> 2 ^ 53 then showInt \<lfloor>r\<rfloor> else fmt r)"
| "ToString fmt (Str s) = s"

subsection \<open>Conversion to number\<close>

text \<open>
  \<^verbatim>\<open>Number(s)\<close> on a string follows the \<^verbatim>\<open>StringNumericLiteral\<close> grammar: optional
  white space around either nothing (giving \<open>0\<close>), a signed decimal literal or
  \<^verbatim>\<open>Infinity\<close>, or an unsigned hexadecimal, octal or binary integer. Anything else
  is \<^verbatim>\<open>NaN\<close>. \<open>stringToNumber\<close> gives the mathematical value of the literal; the
  engine then rounds it to a double (see \<open>ToNumberRounded\<close>), which never turns a
  number into \<^verbatim>\<open>NaN\<close> or \<^verbatim>\<open>NaN\<close> into a number.

  White space and line terminators among the code units \<open>0..255\<close>: tab, line feed,
  vertical tab, form feed, carriage return, space and the no-break space \<open>0xA0\<close>.
\<close>

definition isWhiteSpace :: "char \<Rightarrow> bool" where
  "isWhiteSpace c =
     (c \<in> set [CHR 0x09, CHR 0x0A, CHR 0x0B, CHR 0x0C, CHR 0x0D, CHR 0x20, CHR 0xA0])"

definition trim :: "string \<Rightarrow> string" where
  "trim s = rev (dropWhile isWhiteSpace (rev (dropWhile isWhiteSpace s)))"

definition digitValue :: "char \<Rightarrow> nat option" where
  "digitValue c =
     map_of (zip ''0123456789abcdefABCDEF''
                 [0, 1, 2, 3, 4, 5, 6, 7, 8, 9, 10, 11, 12, 13, 14, 15, 10, 11, 12, 13, 14, 15]) c"

definition isDigitIn :: "nat \<Rightarrow> char \<Rightarrow> bool" where
  "isDigitIn base c = (case digitValue c of None \<Rightarrow> False | Some d \<Rightarrow> d < base)"

definition digitsValue :: "nat \<Rightarrow> string \<Rightarrow> nat" where
  "digitsValue base ds = foldl (\<lambda>acc c. acc * base + the (digitValue c)) 0 ds"

definition radixLiteral :: "nat \<Rightarrow> string \<Rightarrow> jsnum" where
  "radixLiteral base ds =
     (if ds \<noteq> [] \<and> list_all (isDigitIn base) ds then Fin (real (digitsValue base ds)) else NaN)"

text \<open>The exponent part after the mantissa: empty, or \<open>e\<close>/\<open>E\<close>, an optional sign and digits.\<close>

definition exponentPart :: "string \<Rightarrow> int option" where
  "exponentPart s =
     (case s of
        [] \<Rightarrow> Some 0
      | c # t \<Rightarrow>
          if c = CHR ''e'' \<or> c = CHR ''E'' then
            (let (neg, ds) =
                   (case t of
                      [] \<Rightarrow> (False, [])
                    | d # u \<Rightarrow> if d = CHR ''-'' then (True, u)
                               else if d = CHR ''+'' then (False, u) else (False, t))
             in if ds \<noteq> [] \<and> list_all (isDigitIn 10) ds
                then Some (if neg then - int (digitsValue 10 ds) else int (digitsValue 10 ds))
                else None)
          else None)"

definition decimalLiteral :: "string \<Rightarrow> jsnum" where
  "decimalLiteral s =
     (if s = ''Infinity'' then PosInf
      else
        (let ip = takeWhile (isDigitIn 10) s;
             r1 = dropWhile (isDigitIn 10) s;
             fp = (case r1 of [] \<Rightarrow> [] | c # t \<Rightarrow>
                     if c = CHR ''.'' then takeWhile (isDigitIn 10) t else []);
             r2 = (case r1 of [] \<Rightarrow> [] | c # t \<Rightarrow>
                     if c = CHR ''.'' then dropWhile (isDigitIn 10) t else r1)
         in if ip = [] \<and> fp = [] then NaN
            else (case exponentPart r2 of
                    None \<Rightarrow> NaN
                  | Some e \<Rightarrow>
                      let m = real (digitsValue 10 (ip @ fp))
                      in Fin (if 0 \<le> e then m * 10 ^ nat e / 10 ^ length fp
                              else m / (10 ^ nat (- e) * 10 ^ length fp)))))"

fun negate :: "jsnum \<Rightarrow> jsnum" where
  "negate NaN = NaN"
| "negate PosInf = NegInf"
| "negate NegInf = PosInf"
| "negate (Fin r) = Fin (- r)"

definition stringToNumber :: "string \<Rightarrow> jsnum" where
  "stringToNumber s =
     (let t = trim s in
      case t of
        [] \<Rightarrow> Fin 0
      | c # u \<Rightarrow>
          if c = CHR ''-'' then negate (decimalLiteral u)
          else if c = CHR ''+'' then decimalLiteral u
          else if startsWith t ''0x'' \<or> startsWith t ''0X'' then radixLiteral 16 (drop 2 t)
          else if startsWith t ''0o'' \<or> startsWith t ''0O'' then radixLiteral 8 (drop 2 t)
          else if startsWith t ''0b'' \<or> startsWith t ''0B'' then radixLiteral 2 (drop 2 t)
          else decimalLiteral t)"

text \<open>\<^verbatim>\<open>Number(v)\<close> before rounding; this decides \<^verbatim>\<open>isNaN(Number(v))\<close>.\<close>

fun ToNumber :: "jsval \<Rightarrow> jsnum" where
  "ToNumber Undefined = NaN"
| "ToNumber Null = Fin 0"
| "ToNumber (Bool b) = Fin (if b then 1 else 0)"
| "ToNumber (Num n) = n"
| "ToNumber (Str s) = stringToNumber s"

definition isNaN :: "jsnum \<Rightarrow> bool" where
  "isNaN n = (n = NaN)"

text \<open>
  Where the value matters (comparisons), the value of a numeric string is rounded to a
  double by \<open>rnd\<close>, the engine's rounding; numbers held in cells are doubles already.
\<close>

fun ToNumberRounded :: "(real \<Rightarrow> jsnum) \<Rightarrow> jsval \<Rightarrow> jsnum" where
  "ToNumberRounded rnd (Str s) = (case stringToNumber s of Fin r \<Rightarrow> rnd r | n \<Rightarrow> n)"
| "ToNumberRounded rnd v = ToNumber v"

subsection \<open>Comparison\<close>

text \<open>Strict equality \<^verbatim>\<open>===\<close>: same type and same value, and \<^verbatim>\<open>NaN\<close> equals nothing.\<close>

fun strictEq :: "jsval \<Rightarrow> jsval \<Rightarrow> bool" where
  "strictEq (Num a) (Num b) = (a \<noteq> NaN \<and> a = b)"
| "strictEq a b = (a = b)"

fun numLess :: "jsnum \<Rightarrow> jsnum \<Rightarrow> bool" where
  "numLess NaN b = False"
| "numLess a NaN = False"
| "numLess PosInf b = False"
| "numLess NegInf b = (b \<noteq> NegInf)"
| "numLess (Fin x) PosInf = True"
| "numLess (Fin x) NegInf = False"
| "numLess (Fin x) (Fin y) = (x < y)"

text \<open>Strings compare by code units, the shorter string first when one is a prefix.\<close>

fun stringLess :: "string \<Rightarrow> string \<Rightarrow> bool" where
  "stringLess s [] = False"
| "stringLess [] (d # t) = True"
| "stringLess (c # s) (d # t) =
     (if c = d then stringLess s t else (of_char c :: nat) < of_char d)"

text \<open>
  The relational operator \<^verbatim>\<open>a < b\<close>: two strings compare as strings; otherwise both
  sides are converted to numbers, and the comparison is false when either is
  \<^verbatim>\<open>NaN\<close>.
\<close>

fun jsLess :: "(real \<Rightarrow> jsnum) \<Rightarrow> jsval \<Rightarrow> jsval \<Rightarrow> bool" where
  "jsLess rnd (Str s) (Str t) = stringLess s t"
| "jsLess rnd a b = numLess (ToNumberRounded rnd a) (ToNumberRounded rnd b)"

subsection \<open>The runtime's built-ins\<close>

text \<open>
  Three built-ins of the JavaScript engine are used by the components and are not part
  of the repository: the rendering of a number as a string, the rounding of a literal's
  value to a double, and \<^verbatim>\<open>Array.prototype.sort\<close> with a comparison function. They
  are parameters of the model.
\<close>

record JsEngine =
  numberToString :: "real \<Rightarrow> string"
  roundToDouble :: "real \<Rightarrow> jsnum"
  arraySort :: "(row \<Rightarrow> row \<Rightarrow> int) \<Rightarrow> row list \<Rightarrow> row list"

section \<open>DataPreview: search, sort and paging\<close>

datatype direction = asc | desc

record DataViewState =
  showAllRows :: bool
  searchTerm :: string
  sortColumn :: "string option"
  sortDirection :: direction

definition maxPreviewRows :: nat where
  "maxPreviewRows = 10"

text \<open>
  \<^verbatim>\<open>row.some(cell => String(cell).toLowerCase().includes(searchTerm.toLowerCase()))\<close>.
  \<^verbatim>\<open>Array.prototype.some\<close> does not visit holes.
\<close>

definition cellMatches :: "(real \<Rightarrow> string) \<Rightarrow> string \<Rightarrow> jsval option \<Rightarrow> bool" where
  "cellMatches fmt term c =
     (case c of None \<Rightarrow> False
      | Some v \<Rightarrow> includes_js (toLowerCase (ToString fmt v)) (toLowerCase term))"

definition rowMatches :: "(real \<Rightarrow> string) \<Rightarrow> string \<Rightarrow> row \<Rightarrow> bool" where
  "rowMatches fmt term r = list_ex (cellMatches fmt term) r"

definition searchFilter :: "(real \<Rightarrow> string) \<Rightarrow> string \<Rightarrow> row list \<Rightarrow> row list" where
  "searchFilter fmt term data =
     (if term \<noteq> [] then filter (rowMatches fmt term) data else data)"

text \<open>
  The comparison function handed to \<^verbatim>\<open>sort\<close>: \<open>0\<close> when the two keys are
  \<^verbatim>\<open>===\<close>, otherwise \<open>-1\<close> or \<open>1\<close> by \<^verbatim>\<open>aVal < bVal\<close>, negated for descending.
\<close>

definition compareRows ::
  "(real \<Rightarrow> jsnum) \<Rightarrow> int \<Rightarrow> direction \<Rightarrow> row \<Rightarrow> row \<Rightarrow> int" where
  "compareRows rnd columnIndex dir a b =
     (let aVal = cellAt a columnIndex; bVal = cellAt b columnIndex
      in if strictEq aVal bVal then 0
         else (let comparison = (if jsLess rnd aVal bVal then -1 else 1)
               in if dir = asc then comparison else - comparison))"

text \<open>\<^verbatim>\<open>if (sortColumn) { ... [...filteredData].sort(...) }\<close>; \<^verbatim>\<open>null\<close> and the empty
  string are falsy.\<close>

definition sortRows :: "JsEngine \<Rightarrow> string list \<Rightarrow> DataViewState \<Rightarrow> row list \<Rightarrow> row list" where
  "sortRows eng headers st rows =
     (case sortColumn st of
        None \<Rightarrow> rows
      | Some c \<Rightarrow>
          if c = [] then rows
          else arraySort eng
                 (compareRows (roundToDouble eng) (indexOf headers c) (sortDirection st)) rows)"

definition filteredAndSortedData ::
  "JsEngine \<Rightarrow> row list \<Rightarrow> string list \<Rightarrow> DataViewState \<Rightarrow> row list" where
  "filteredAndSortedData eng data headers st =
     sortRows eng headers st (searchFilter (numberToString eng) (searchTerm st) data)"

definition previewRows ::
  "JsEngine \<Rightarrow> row list \<Rightarrow> string list \<Rightarrow> DataViewState \<Rightarrow> row list" where
  "previewRows eng data headers st =
     (if showAllRows st then filteredAndSortedData eng data headers st
      else take maxPreviewRows (filteredAndSortedData eng data headers st))"

definition hasMoreRows ::
  "JsEngine \<Rightarrow> row list \<Rightarrow> string list \<Rightarrow> DataViewState \<Rightarrow> bool" where
  "hasMoreRows eng data headers st =
     (length (filteredAndSortedData eng data headers st) > maxPreviewRows)"

text \<open>
  The view tells the user that rows were cut off (``Showing 10 of N rows'') under
  \<^verbatim>\<open>hasMoreRows && !showAllRows\<close>.
\<close>

definition truncationNotice ::
  "JsEngine \<Rightarrow> row list \<Rightarrow> string list \<Rightarrow> DataViewState \<Rightarrow> bool" where
  "truncationNotice eng data headers st =
     (hasMoreRows eng data headers st \<and> \<not> showAllRows st)"

definition handleSort :: "string \<Rightarrow> DataViewState \<Rightarrow> DataViewState" where
  "handleSort column st =
     (if sortColumn st = Some column
      then st\<lparr>sortDirection := (if sortDirection st = asc then desc else asc)\<rparr>
      else st\<lparr>sortColumn := Some column, sortDirection := asc\<rparr>)"

text \<open>The table cell shows \<^verbatim>\<open>row[colIndex] || '-'\<close>.\<close>

definition cellContent :: "row \<Rightarrow> nat \<Rightarrow> jsval" where
  "cellContent r colIndex =
     (let v = cellAt r (int colIndex) in if truthy v then v else Str ''-'')"

section \<open>ChartGenerator: traces and layout\<close>

datatype ChartType = bar | line | scatter | pie | bar3d | scatter3d

record ChartState =
  xAxis :: string
  yAxis :: string
  chartType :: ChartType
  error :: "string option"

text \<open>
  A trace as handed to the plotting widget. Keys that a trace does not carry are
  \<open>None\<close>; the marker is a single colour, a colour per point driven by values, or a
  palette. Line widths, marker sizes and the pie's hole are constants of the source
  that no decision depends on and are left out.
\<close>

datatype marker = SolidColor string | ColorByValues "jsval list" | ColorPalette "string list"

record trace =
  trace_type :: string
  trace_mode :: "string option"
  trace_x :: "jsval list option"
  trace_y :: "jsval list option"
  trace_name :: "string option"
  trace_labels :: "jsval list option"
  trace_values :: "jsval list option"
  trace_marker :: marker

text \<open>\<^verbatim>\<open>!isNaN(Number(val)) && val !== null && val !== ''\<close>\<close>

definition numericY :: "jsval \<Rightarrow> bool" where
  "numericY val = (\<not> isNaN (ToNumber val) \<and> val \<noteq> Null \<and> val \<noteq> Str [])"

text \<open>
  The coercion rule in the specification's words: a value is numeric when it is a
  number (other than \<^verbatim>\<open>NaN\<close>) or a non-blank string that parses fully as a number; an
  empty cell, \<^verbatim>\<open>null\<close>, \<^verbatim>\<open>NaN\<close>, the empty string and a string that does not parse are
  not. The two predicates leave booleans and blank strings to neither side.
\<close>

fun specNumeric :: "jsval \<Rightarrow> bool" where
  "specNumeric (Num n) = (n \<noteq> NaN)"
| "specNumeric (Str s) = (trim s \<noteq> [] \<and> stringToNumber s \<noteq> NaN)"
| "specNumeric v = False"

fun specNotNumeric :: "jsval \<Rightarrow> bool" where
  "specNotNumeric Undefined = True"
| "specNotNumeric Null = True"
| "specNotNumeric (Num n) = (n = NaN)"
| "specNotNumeric (Str s) = (s = [] \<or> stringToNumber s = NaN)"
| "specNotNumeric (Bool b) = False"

definition baseTrace :: "string \<Rightarrow> jsval list \<Rightarrow> jsval list \<Rightarrow> trace" where
  "baseTrace nm xValues yValues =
     \<lparr>trace_type = [], trace_mode = None, trace_x = Some xValues, trace_y = Some yValues,
      trace_name = Some nm, trace_labels = None, trace_values = None,
      trace_marker = SolidColor []\<rparr>"

definition buildTrace :: "ChartType \<Rightarrow> string \<Rightarrow> jsval list \<Rightarrow> jsval list \<Rightarrow> trace" where
  "buildTrace ct nm xValues yValues =
     (case ct of
        bar \<Rightarrow> (baseTrace nm xValues yValues)
                 \<lparr>trace_type := ''bar'', trace_marker := SolidColor ''rgba(59, 130, 246, 0.8)''\<rparr>
      | line \<Rightarrow> (baseTrace nm xValues yValues)
                 \<lparr>trace_type := ''scatter'', trace_mode := Some ''lines+markers'',
                  trace_marker := SolidColor ''rgba(34, 197, 94, 1)''\<rparr>
      | scatter \<Rightarrow> (baseTrace nm xValues yValues)
                 \<lparr>trace_type := ''scatter'', trace_mode := Some ''markers'',
                  trace_marker := SolidColor ''rgba(168, 85, 247, 0.8)''\<rparr>
      | pie \<Rightarrow> \<lparr>trace_type = ''pie'', trace_mode = None, trace_x = None, trace_y = None,
                 trace_name = None, trace_labels = Some xValues, trace_values = Some yValues,
                 trace_marker = ColorPalette
                   [''rgba(59, 130, 246, 0.8)'', ''rgba(34, 197, 94, 0.8)'',
                    ''rgba(168, 85, 247, 0.8)'', ''rgba(251, 191, 36, 0.8)'',
                    ''rgba(239, 68, 68, 0.8)'']\<rparr>
      | bar3d \<Rightarrow> (baseTrace nm xValues yValues)
                 \<lparr>trace_type := ''bar'', trace_marker := ColorByValues yValues\<rparr>
      | scatter3d \<Rightarrow> (baseTrace nm xValues yValues)
                 \<lparr>trace_type := ''scatter3d'', trace_mode := Some ''markers'',
                  trace_marker := ColorByValues yValues\<rparr>)"

definition noNumericDataMessage :: string where
  "noNumericDataMessage = ''Selected Y-axis column contains no numeric data''"

text \<open>
  The memoised \<^verbatim>\<open>chartData\<close>. It returns the traces or \<^verbatim>\<open>null\<close>, and on one path
  calls \<^verbatim>\<open>setError\<close>; the component state is passed in and returned.
\<close>

definition chartData ::
  "row list \<Rightarrow> string list \<Rightarrow> ChartState \<Rightarrow> ChartState \<times> trace list option" where
  "chartData rows headers st =
     (if xAxis st = [] \<or> yAxis st = [] \<or> length rows = 0 then (st, None)
      else
        (let xIndex = indexOf headers (xAxis st);
             yIndex = indexOf headers (yAxis st)
         in if xIndex = -1 \<or> yIndex = -1 then (st, None)
            else
              (let xValues = map (\<lambda>r. cellAt r xIndex) rows;
                   yValues = map (\<lambda>r. cellAt r yIndex) rows;
                   numericYValues = filter numericY yValues
               in if length numericYValues = 0
                  then (st\<lparr>error := Some noNumericDataMessage\<rparr>, None)
                  else (st, Some [buildTrace (chartType st)
                                    (yAxis st @ '' vs '' @ xAxis st) xValues yValues]))))"

text \<open>
  The layout object. \<open>layout_xaxis\<close> and \<open>layout_yaxis\<close> hold the axis title when the
  object has the key, \<open>None\<close> when it has not.
\<close>

record layout =
  layout_title :: string
  layout_xaxis :: "string option"
  layout_yaxis :: "string option"

definition chartLayout :: "ChartState \<Rightarrow> layout" where
  "chartLayout st =
     \<lparr>layout_title = yAxis st @ '' vs '' @ xAxis st,
      layout_xaxis = Some (xAxis st),
      layout_yaxis = Some (yAxis st)\<rparr>"

text \<open>\<^verbatim>\<open>{chartData && <LazyChart data={chartData} layout={layout} .../>}\<close>\<close>

definition lazyChartProps ::
  "row list \<Rightarrow> string list \<Rightarrow> ChartState \<Rightarrow> (trace list \<times> layout) option" where
  "lazyChartProps rows headers st =
     (case snd (chartData rows headers st) of
        None \<Rightarrow> None
      | Some d \<Rightarrow> Some (d, chartLayout st))"

section \<open>FileUpload: validation and decoding\<close>

record File =
  file_name :: string
  file_size :: nat
  file_type :: string

text \<open>What the codec returns for a file it can read: the sheet names and the first
  sheet as a matrix of raw cells (\<^verbatim>\<open>sheet_to_json\<close> with \<^verbatim>\<open>header: 1\<close>). The header
  row is \<^verbatim>\<open>jsonData[0] as string[]\<close>; the cast converts nothing, so it is a raw row.\<close>

record Workbook =
  SheetNames :: "string list"
  firstSheetJson :: "row list"

record ExcelData =
  excel_data :: "row list"
  excel_headers :: row
  excel_sheetNames :: "string list"

datatype uploadError =
  SizeExceeded | UnsupportedType | EmptyWorkbook | NoHeaders | NoDataRows | CodecError string

fun errorMessage :: "uploadError \<Rightarrow> string" where
  "errorMessage SizeExceeded = ''File size exceeds 10MB limit''"
| "errorMessage UnsupportedType = ''Please upload a valid Excel file (.xlsx or .xls)''"
| "errorMessage EmptyWorkbook = ''The Excel file appears to be empty''"
| "errorMessage NoHeaders = ''No headers found in the Excel file''"
| "errorMessage NoDataRows = ''No data rows found in the Excel file''"
| "errorMessage (CodecError m) = m"

definition maxSize :: nat where
  "maxSize = 10 * 1024 * 1024"

definition allowedTypes :: "string list" where
  "allowedTypes =
     [''application/vnd.openxmlformats-officedocument.spreadsheetml.sheet'',
      ''application/vnd.ms-excel'']"

text \<open>The effects of one run, in order.\<close>

datatype effect = SetUploadProgress nat | ArrayBuffer | XlsxRead | SheetToJson | OnDataUpload

text \<open>
  \<^verbatim>\<open>processExcelFile\<close>. The codec (\<^verbatim>\<open>XLSX.read\<close> on the file's bytes) is a parameter:
  it throws (\<open>Inl\<close> the message) or returns a workbook. The result is the effects
  performed and either the error whose message is shown or the data handed to
  \<^verbatim>\<open>onDataUpload\<close>.
\<close>

definition processExcelFile ::
  "(File \<Rightarrow> string + Workbook) \<Rightarrow> File \<Rightarrow> effect list \<times> (uploadError + ExcelData)" where
  "processExcelFile codec file =
     (if file_size file > maxSize then ([SetUploadProgress 0], Inl SizeExceeded)
      else if file_type file \<notin> set allowedTypes then ([SetUploadProgress 0], Inl UnsupportedType)
      else
        (case codec file of
           Inl m \<Rightarrow>
             ([SetUploadProgress 0, SetUploadProgress 25, ArrayBuffer, SetUploadProgress 50,
               XlsxRead], Inl (CodecError m))
         | Inr workbook \<Rightarrow>
             (let pre = [SetUploadProgress 0, SetUploadProgress 25, ArrayBuffer,
                         SetUploadProgress 50, XlsxRead, SetUploadProgress 75, SheetToJson];
                  jsonData = firstSheetJson workbook
              in case jsonData of
                   [] \<Rightarrow> (pre, Inl EmptyWorkbook)
                 | hdrs # rest \<Rightarrow>
                     if length hdrs = 0 then (pre, Inl NoHeaders)
                     else if length rest = 0 then (pre, Inl NoDataRows)
                     else (pre @ [SetUploadProgress 90, SetUploadProgress 100, OnDataUpload],
                           Inr \<lparr>excel_data = rest, excel_headers = hdrs,
                                excel_sheetNames = SheetNames workbook\<rparr>))))"

section \<open>Dashboard: upload history\<close>

record UploadHistory =
  upload_id :: string
  upload_fileName :: string
  upload_date :: nat
  upload_rowCount :: nat
  upload_columnCount :: nat

record DashboardState =
  uploadedData :: "ExcelData option"
  uploadHistory :: "UploadHistory list"
  currentFileName :: string
  dashboardError :: "string option"

definition initialDashboard :: DashboardState where
  "initialDashboard =
     \<lparr>uploadedData = None, uploadHistory = [], currentFileName = [], dashboardError = None\<rparr>"

text \<open>The record built for an upload at time \<open>now\<close> (milliseconds, \<^verbatim>\<open>Date.now()\<close>);
  \<^verbatim>\<open>fileName || 'excel-file.xlsx'\<close>.\<close>

definition newUpload :: "nat \<Rightarrow> ExcelData \<Rightarrow> string option \<Rightarrow> UploadHistory" where
  "newUpload now d fileName =
     \<lparr>upload_id = showNat now,
      upload_fileName = (case fileName of None \<Rightarrow> ''excel-file.xlsx''
                         | Some f \<Rightarrow> if f = [] then ''excel-file.xlsx'' else f),
      upload_date = now,
      upload_rowCount = length (excel_data d),
      upload_columnCount = length (excel_headers d)\<rparr>"

text \<open>An upload is accepted when it has data rows and headers.\<close>

definition validUpload :: "ExcelData \<Rightarrow> bool" where
  "validUpload d = (length (excel_data d) \<noteq> 0 \<and> length (excel_headers d) \<noteq> 0)"

definition handleDataUpload ::
  "nat \<Rightarrow> ExcelData \<Rightarrow> string option \<Rightarrow> DashboardState \<Rightarrow> DashboardState" where
  "handleDataUpload now d fileName st =
     (if length (excel_data d) = 0
      then st\<lparr>dashboardError := Some ''No data found in the uploaded file''\<rparr>
      else if length (excel_headers d) = 0
      then st\<lparr>dashboardError := Some ''No headers found in the uploaded file''\<rparr>
      else st\<lparr>dashboardError := None,
              uploadedData := Some d,
              uploadHistory := newUpload now d fileName # take 4 (uploadHistory st),
              currentFileName := upload_fileName (newUpload now d fileName)\<rparr>)"

text \<open>A run of uploads, oldest first, each with its time, data and file name.\<close>

fun uploads :: "(nat \<times> ExcelData \<times> string option) list \<Rightarrow> DashboardState \<Rightarrow> DashboardState" where
  "uploads [] st = st"
| "uploads ((now, d, f) # us) st = uploads us (handleDataUpload now d f st)"

section \<open>What the language promises about \<^verbatim>\<open>Array.prototype.sort\<close>\<close>

text \<open>
  ECMAScript fixes the result of \<^verbatim>\<open>sort\<close> only when the comparison function is
  \<^emph>\<open>consistent\<close> on the elements: every element equals itself, equality is symmetric
  and transitive, and both ``less'' and ``greater'' are transitive. Then the result is
  a permutation in non-decreasing order in which elements that compare equal keep their
  original order. For any other comparison function the order is
  implementation-defined.
\<close>

definition consistentOn :: "('a \<Rightarrow> 'a \<Rightarrow> int) \<Rightarrow> 'a set \<Rightarrow> bool" where
  "consistentOn cmp S =
     ((\<forall>a\<in>S. cmp a a = 0) \<and>
      (\<forall>a\<in>S. \<forall>b\<in>S. cmp a b = 0 \<longrightarrow> cmp b a = 0) \<and>
      (\<forall>a\<in>S. \<forall>b\<in>S. \<forall>c\<in>S. cmp a b = 0 \<and> cmp b c = 0 \<longrightarrow> cmp a c = 0) \<and>
      (\<forall>a\<in>S. \<forall>b\<in>S. \<forall>c\<in>S. cmp a b < 0 \<and> cmp b c < 0 \<longrightarrow> cmp a c < 0) \<and>
      (\<forall>a\<in>S. \<forall>b\<in>S. \<forall>c\<in>S. cmp a b > 0 \<and> cmp b c > 0 \<longrightarrow> cmp a c > 0))"

definition stableSortOf :: "('a \<Rightarrow> 'a \<Rightarrow> int) \<Rightarrow> 'a list \<Rightarrow> 'a list \<Rightarrow> bool" where
  "stableSortOf cmp xs ys =
     (mset ys = mset xs \<and>
      sorted_wrt (\<lambda>a b. cmp a b \<le> 0) ys \<and>
      (\<forall>x\<in>set xs. filter (\<lambda>y. cmp x y = 0) ys = filter (\<lambda>y. cmp x y = 0) xs))"

definition conformingSort :: "(('a \<Rightarrow> 'a \<Rightarrow> int) \<Rightarrow> 'a list \<Rightarrow> 'a list) \<Rightarrow> bool" where
  "conformingSort srt =
     (\<forall>cmp xs. consistentOn cmp (set xs) \<longrightarrow> stableSortOf cmp xs (srt cmp xs))"

text \<open>A sort that meets the contract: stable insertion.\<close>

fun insertBy :: "('a \<Rightarrow> 'a \<Rightarrow> int) \<Rightarrow> 'a \<Rightarrow> 'a list \<Rightarrow> 'a list" where
  "insertBy cmp x [] = [x]"
| "insertBy cmp x (y # ys) = (if cmp x y \<le> 0 then x # y # ys else y # insertBy cmp x ys)"

definition insertionSort :: "('a \<Rightarrow> 'a \<Rightarrow> int) \<Rightarrow> 'a list \<Rightarrow> 'a list" where
  "insertionSort cmp xs = foldr (insertBy cmp) xs []"

text \<open>
  The sort of the V8 engine (Chrome, Node.js) on arrays of fewer than 64 elements, where
  its TimSort takes the whole array as one run: the leading run is counted (and reversed
  when strictly descending), then every later element is placed by binary search.
\<close>

fun extendRun :: "('a \<Rightarrow> 'a \<Rightarrow> int) \<Rightarrow> bool \<Rightarrow> 'a \<Rightarrow> 'a list \<Rightarrow> nat" where
  "extendRun cmp isDescending previousElement [] = 0"
| "extendRun cmp isDescending previousElement (currentElement # rest) =
     (let order = cmp currentElement previousElement
      in if (if isDescending then order \<ge> 0 else order < 0) then 0
         else Suc (extendRun cmp isDescending currentElement rest))"

definition countAndMakeRun :: "('a \<Rightarrow> 'a \<Rightarrow> int) \<Rightarrow> 'a list \<Rightarrow> nat \<times> 'a list" where
  "countAndMakeRun cmp a =
     (case a of
        elementHigh # elementLow # rest \<Rightarrow>
          (let isDescending = (cmp elementLow elementHigh < 0);
               runLength = 2 + extendRun cmp isDescending elementLow rest
           in (runLength, if isDescending then rev (take runLength a) @ drop runLength a else a))
      | _ \<Rightarrow> (length a, a))"

function binarySearch :: "('a \<Rightarrow> 'a \<Rightarrow> int) \<Rightarrow> 'a \<Rightarrow> 'a list \<Rightarrow> nat \<Rightarrow> nat \<Rightarrow> nat" where
  "binarySearch cmp pivot a left right =
     (if left < right
      then (let mid = left + (right - left) div 2
            in if cmp pivot (a ! mid) < 0 then binarySearch cmp pivot a left mid
               else binarySearch cmp pivot a (mid + 1) right)
      else left)"
  by pat_completeness auto
termination
  by (relation "measure (\<lambda>(cmp, pivot, a, left, right). right - left)") auto

declare binarySearch.simps [simp del]

definition binaryInsert :: "('a \<Rightarrow> 'a \<Rightarrow> int) \<Rightarrow> 'a list \<Rightarrow> nat \<Rightarrow> 'a list" where
  "binaryInsert cmp a start =
     (let pivot = a ! start;
          left = binarySearch cmp pivot a 0 start
      in take left a @ pivot # drop left (take start a) @ drop (Suc start) a)"

definition v8SortShort :: "('a \<Rightarrow> 'a \<Rightarrow> int) \<Rightarrow> 'a list \<Rightarrow> 'a list" where
  "v8SortShort cmp a =
     (if length a < 2 then a
      else (let (runLength, a') = countAndMakeRun cmp a
            in foldl (binaryInsert cmp) a' [runLength..<length a]))"

text \<open>From 64 elements on V8 merges several runs; that is not modelled, and the result
  there is left unspecified.\<close>

definition v8Sort :: "('a \<Rightarrow> 'a \<Rightarrow> int) \<Rightarrow> 'a list \<Rightarrow> 'a list" where
  "v8Sort cmp a = (if length a < 64 then v8SortShort cmp a else undefined cmp a)"

text \<open>Columns on which the comparison function of the preview is sure to be
  consistent: every key a string, or every key a number other than \<^verbatim>\<open>NaN\<close>, or every
  key a boolean.\<close>

fun isString :: "jsval \<Rightarrow> bool" where
  "isString (Str s) = True"
| "isString v = False"

fun isOrderedNumber :: "jsval \<Rightarrow> bool" where
  "isOrderedNumber (Num n) = (n \<noteq> NaN)"
| "isOrderedNumber v = False"

fun isBoolean :: "jsval \<Rightarrow> bool" where
  "isBoolean (Bool b) = True"
| "isBoolean v = False"

definition uniformColumn :: "int \<Rightarrow> row list \<Rightarrow> bool" where
  "uniformColumn columnIndex rows =
     (list_all (\<lambda>r. isString (cellAt r columnIndex)) rows \<or>
      list_all (\<lambda>r. isOrderedNumber (cellAt r columnIndex)) rows \<or>
      list_all (\<lambda>r. isBoolean (cellAt r columnIndex)) rows)"

text \<open>Keys of one kind: all strings, all numbers other than NaN, or all booleans.\<close>

definition oneKind :: "jsval set \<Rightarrow> bool" where
  "oneKind K =
     ((\<forall>k\<in>K. isString k) \<or> (\<forall>k\<in>K. isOrderedNumber k) \<or> (\<forall>k\<in>K. isBoolean k))"

section \<open>Example data\<close>

text \<open>A conforming engine and the store of the specification's scenarios, used by the
  concrete instances below. No example renders a number beyond the integers up to
  \<open>2^53\<close> or compares a numeric string with a number, so the engine's rendering and
  rounding are left unspecified.\<close>

definition referenceEngine :: JsEngine where
  "referenceEngine =
     \<lparr>numberToString = undefined, roundToDouble = undefined, arraySort = insertionSort\<rparr>"

definition salesHeaders :: "string list" where
  "salesHeaders = [''Name'', ''Sales'']"

definition salesRows :: "row list" where
  "salesRows = [[Some (Str ''Alice''), Some (Num (Fin 10))], [Some (Str ''Bob''), Some (Num (Fin 20))]]"

text \<open>Rows holding a cell of every kind: a boolean and a hole, \<^verbatim>\<open>null\<close> and a negative
  number, \<^verbatim>\<open>NaN\<close> and \<^verbatim>\<open>-Infinity\<close>, an explicit \<^verbatim>\<open>undefined\<close> and a text of three
  Latin-1 code units: capital E acute (\<open>0xC9\<close>), \<open>t\<close>, small e acute (\<open>0xE9\<close>).\<close>

definition kindRows :: "row list" where
  "kindRows =
     [[Some (Bool True), None],
      [Some Null, Some (Num (Fin (- 7)))],
      [Some (Num NaN), Some (Num NegInf)],
      [Some Undefined, Some (Str [CHR 0xC9, CHR ''t'', CHR 0xE9])]]"

definition initialView :: DataViewState where
  "initialView = \<lparr>showAllRows = False, searchTerm = [], sortColumn = None, sortDirection = asc\<rparr>"

definition salesData :: ExcelData where
  "salesData = \<lparr>excel_data = salesRows,
                excel_headers = [Some (Str ''Name''), Some (Str ''Sales'')],
                excel_sheetNames = [''Sheet1'']\<rparr>"

definition xlsxFile :: File where
  "xlsxFile = \<lparr>file_name = ''book.xlsx'', file_size = 2048,
               file_type = ''application/vnd.openxmlformats-officedocument.spreadsheetml.sheet''\<rparr>"

text \<open>The V8 engine (its sort as far as modelled, rendering and rounding unspecified),
  and a quantity column of seven rows in which one cell holds text.\<close>

definition v8Engine :: JsEngine where
  "v8Engine = \<lparr>numberToString = undefined, roundToDouble = undefined, arraySort = v8Sort\<rparr>"

definition qtyHeaders :: "string list" where
  "qtyHeaders = [''Qty'', ''Id'']"

definition qtyRows :: "row list" where
  "qtyRows =
     [[Some (Num (Fin 1)), Some (Num (Fin 0))],
      [Some (Num (Fin 1)), Some (Num (Fin 1))],
      [Some (Num (Fin 2)), Some (Num (Fin 2))],
      [Some (Num (Fin 1)), Some (Num (Fin 3))],
      [Some (Str ''x''), Some (Num (Fin 4))],
      [Some (Num (Fin 1)), Some (Num (Fin 5))],
      [Some (Num (Fin 1)), Some (Num (Fin 6))]]"

definition qtyView :: DataViewState where
  "qtyView = \<lparr>showAllRows = True, searchTerm = [], sortColumn = Some ''Qty'', sortDirection = asc\<rparr>"

definition salesView :: DataViewState where
  "salesView = \<lparr>showAllRows = False, searchTerm = [], sortColumn = Some ''Sales'', sortDirection = desc\<rparr>"

section \<open>Basic facts\<close>

lemma startsWith_prefix: "startsWith s t = prefix t s"
  by (induction s t rule: startsWith.induct) auto

lemma includes_js_sublist: "includes_js s t = sublist t s"
  by (induction s) (auto simp: startsWith_prefix sublist_Cons_right)

text \<open>Unfolding these evaluates \<^verbatim>\<open>Number(s)\<close> on a literal string.\<close>

lemmas num_eval = stringToNumber_def trim_def isWhiteSpace_def decimalLiteral_def isDigitIn_def
  digitValue_def digitsValue_def exponentPart_def

lemma indexOf_ge: "- 1 \<le> indexOf hs s"
  by (induction hs) (auto simp: Let_def)

lemma indexOf_absent: "(indexOf hs s = - 1) = (s \<notin> set hs)"
proof (induction hs)
  case Nil
  show ?case by simp
next
  case (Cons h hs)
  have "indexOf hs s + 1 \<noteq> - 1" using indexOf_ge [of hs s] by arith
  with Cons show ?case by (auto simp: Let_def)
qed

lemma falsy_values:
  "(\<not> truthy v) = (v \<in> {Undefined, Null, Bool False, Num NaN, Num (Fin 0), Str []})"
  by (cases v rule: truthy.cases) auto

lemma toLowerChar_adds_32:
  "(65 \<le> (of_char c :: nat) \<and> (of_char c :: nat) \<le> 90) \<or>
   (192 \<le> (of_char c :: nat) \<and> (of_char c :: nat) \<le> 222 \<and> (of_char c :: nat) \<noteq> 215)
   \<Longrightarrow> (of_char (toLowerChar c) :: nat) = of_char c + 32"
  by (cases c) (auto simp: toLowerChar_def Let_def of_bool_def split: if_splits)

lemma ToNumberRounded_NaN:
  "\<forall>r. rnd r \<noteq> NaN \<Longrightarrow> (ToNumberRounded rnd v = NaN) = (ToNumber v = NaN)"
  by (cases v) (auto split: jsnum.splits)

lemma numericY_cases:
  "numericY v =
     (case v of Num n \<Rightarrow> n \<noteq> NaN | Bool b \<Rightarrow> True
      | Str s \<Rightarrow> s \<noteq> [] \<and> stringToNumber s \<noteq> NaN | _ \<Rightarrow> False)"
  by (cases v) (auto simp: numericY_def isNaN_def)

lemma filteredAndSortedData_showAllRows:
  "filteredAndSortedData eng rows headers (st\<lparr>showAllRows := b\<rparr>) = filteredAndSortedData eng rows headers st"
  by (simp add: filteredAndSortedData_def sortRows_def split: option.split)

lemma hasMoreRows_showAllRows:
  "hasMoreRows eng rows headers (st\<lparr>showAllRows := b\<rparr>)
     = (length (filteredAndSortedData eng rows headers st) > 10)"
  by (simp add: hasMoreRows_def maxPreviewRows_def filteredAndSortedData_showAllRows)

lemma truncationNotice_cut:
  "truncationNotice eng rows headers st
     = (length (previewRows eng rows headers st)
          < length (filteredAndSortedData eng rows headers st))"
  by (auto simp: truncationNotice_def hasMoreRows_def previewRows_def maxPreviewRows_def)

lemma take_cons_take_le: "k \<le> 5 \<Longrightarrow> take k (n # take 4 h) = take k (n # h)"
  by (cases k) (simp_all add: min_def)

lemma take_cons_take: "take 5 (A @ n # take 4 h) = take 5 (A @ n # h)"
  by (simp add: take_cons_take_le)

lemma uploads_history_take:
  "list_all (\<lambda>(now, d, f). validUpload d) us \<Longrightarrow>
   take 5 (uploadHistory (uploads us st))
     = take 5 (rev (map (\<lambda>(now, d, f). newUpload now d f) us) @ uploadHistory st)"
proof (induction us arbitrary: st)
  case Nil
  then show ?case by simp
next
  case (Cons u us)
  obtain now d f where u: "u = (now, d, f)" by (cases u) auto
  from Cons.prems u have v: "validUpload d" and rest: "list_all (\<lambda>(now, d, f). validUpload d) us"
    by auto
  have h: "uploadHistory (handleDataUpload now d f st) = newUpload now d f # take 4 (uploadHistory st)"
    using v by (simp add: handleDataUpload_def validUpload_def)
  let ?mk = "\<lambda>(now, d, f). newUpload now d f"
  have "take 5 (uploadHistory (uploads us (handleDataUpload now d f st)))
          = take 5 (rev (map ?mk us) @ uploadHistory (handleDataUpload now d f st))"
    by (rule Cons.IH [OF rest])
  also have "\<dots> = take 5 (rev (map ?mk us) @ newUpload now d f # take 4 (uploadHistory st))"
    by (simp only: h)
  also have "\<dots> = take 5 (rev (map ?mk us) @ newUpload now d f # uploadHistory st)"
    by (rule take_cons_take)
  finally show ?case by (simp add: u)
qed

lemma uploads_history_length:
  "length (uploadHistory st) \<le> 5 \<Longrightarrow> length (uploadHistory (uploads us st)) \<le> 5"
proof (induction us arbitrary: st)
  case Nil
  then show ?case by simp
next
  case (Cons u us)
  obtain now d f where u: "u = (now, d, f)" by (cases u) auto
  have "length (uploadHistory (handleDataUpload now d f st)) \<le> 5"
    using Cons.prems by (simp add: handleDataUpload_def)
  then show ?case using Cons.IH u by simp
qed

subsection \<open>Reading back the digits of a number\<close>

text \<open>\<^verbatim>\<open>Number(String(n)) = n\<close> for the natural numbers up to \<open>2^53\<close>: the digits that
  \<open>ToString\<close> prints are the ones \<open>stringToNumber\<close> reads.\<close>

lemma digit_cases:
  assumes "d < (10::nat)"
  obtains "d = 0" | "d = 1" | "d = 2" | "d = 3" | "d = 4" | "d = 5" | "d = 6" | "d = 7"
  | "d = 8" | "d = 9"
proof -
  from assms have "d = 0 \<or> d = 1 \<or> d = 2 \<or> d = 3 \<or> d = 4 \<or> d = 5 \<or> d = 6 \<or> d = 7
      \<or> d = 8 \<or> d = 9" by arith
  then show thesis using that by blast
qed

lemma digitValue_digitChar: "d < 10 \<Longrightarrow> digitValue (digitChar d) = Some d"
  by (erule digit_cases) (simp_all add: digitValue_def digitChar_def)

lemma digitChar_isDigit: "d < 10 \<Longrightarrow> isDigitIn 10 (digitChar d)"
  by (simp add: isDigitIn_def digitValue_digitChar)

lemma digitChar_plain:
  "d < 10 \<Longrightarrow> \<not> isWhiteSpace (digitChar d) \<and> digitChar d \<noteq> CHR ''-'' \<and> digitChar d \<noteq> CHR ''+''
     \<and> digitChar d \<noteq> CHR ''x'' \<and> digitChar d \<noteq> CHR ''X'' \<and> digitChar d \<noteq> CHR ''o''
     \<and> digitChar d \<noteq> CHR ''O'' \<and> digitChar d \<noteq> CHR ''b'' \<and> digitChar d \<noteq> CHR ''B''
     \<and> digitChar d \<noteq> CHR ''I''"
  by (erule digit_cases) (simp_all add: digitChar_def isWhiteSpace_def)

lemma showNat_snoc:
  "\<exists>ds d. showNat n = ds @ [digitChar d] \<and> d < 10"
  by (subst showNat.simps) auto

lemma showNat_all_digits: "\<exists>ds. showNat n = map digitChar ds \<and> ds \<noteq> [] \<and> list_all (\<lambda>d. d < 10) ds"
proof (induction n rule: showNat.induct)
  case (1 n)
  show ?case
  proof (cases "n < 10")
    case True
    then have "showNat n = map digitChar [n]" by (subst showNat.simps) simp
    with True show ?thesis by (intro exI [of _ "[n]"]) simp
  next
    case False
    with 1 obtain ds where ds: "showNat (n div 10) = map digitChar ds" "ds \<noteq> []"
      "list_all (\<lambda>d. d < 10) ds" by auto
    from False have "showNat n = showNat (n div 10) @ [digitChar (n mod 10)]"
      by (subst showNat.simps) simp
    with ds show ?thesis by (intro exI [of _ "ds @ [n mod 10]"]) simp
  qed
qed

lemma digitsValue_snoc:
  "digitsValue b (ds @ [c]) = digitsValue b ds * b + the (digitValue c)"
  by (simp add: digitsValue_def)

lemma digitsValue_showNat: "digitsValue 10 (showNat n) = n"
proof (induction n rule: showNat.induct)
  case (1 n)
  show ?case
  proof (cases "n < 10")
    case True
    then have "showNat n = [digitChar n]" by (subst showNat.simps) simp
    with True show ?thesis by (simp add: digitsValue_def digitValue_digitChar)
  next
    case False
    then have "showNat n = showNat (n div 10) @ [digitChar (n mod 10)]"
      by (subst showNat.simps) simp
    with False 1 show ?thesis by (simp add: digitsValue_snoc digitValue_digitChar)
  qed
qed


lemma decimalLiteral_digits:
  assumes "ds \<noteq> []" and "list_all (\<lambda>d. d < 10) ds"
  shows "decimalLiteral (map digitChar ds) = Fin (real (digitsValue 10 (map digitChar ds)))"
proof -
  let ?s = "map digitChar ds"
  have all: "list_all (isDigitIn 10) ?s"
    using assms(2) by (auto simp: list_all_iff digitChar_isDigit)
  then have tw: "takeWhile (isDigitIn 10) ?s = ?s" and dw: "dropWhile (isDigitIn 10) ?s = []"
    by (auto simp: list_all_iff)
  obtain d ds' where ds: "ds = d # ds'" using assms(1) by (cases ds) auto
  with assms(2) have "digitChar d \<noteq> CHR ''I''" by (simp add: digitChar_plain)
  then have ni: "?s \<noteq> ''Infinity''" by (auto simp: ds)
  have ne: "?s \<noteq> []" using assms(1) by simp
  show ?thesis
    unfolding decimalLiteral_def using ni ne by (simp add: tw dw exponentPart_def Let_def)
qed

lemma stringToNumber_showNat: "stringToNumber (showNat n) = Fin (real n)"
proof -
  obtain ds where s: "showNat n = map digitChar ds" and ne: "ds \<noteq> []"
    and all: "list_all (\<lambda>d. d < 10) ds"
    using showNat_all_digits [of n] by blast
  obtain d ds' where ds: "ds = d # ds'" using ne by (cases ds) auto
  obtain e es where rs: "rev ds = e # es" using ne by (cases "rev ds") auto
  have d: "d < 10" using all ds by simp
  have "e \<in> set ds" using rs by (metis list.set_intros(1) set_rev)
  then have e: "e < 10" using all by (auto simp: list_all_iff)
  have dw1: "dropWhile isWhiteSpace (map digitChar ds) = map digitChar ds"
    using d by (simp add: ds digitChar_plain)
  have "rev (map digitChar ds) = digitChar e # map digitChar es"
    using rs by (simp add: rev_map)
  then have dw2: "dropWhile isWhiteSpace (rev (map digitChar ds)) = rev (map digitChar ds)"
    using e by (simp add: digitChar_plain)
  have t: "trim (map digitChar ds) = map digitChar ds"
    by (simp add: trim_def dw1 dw2 del: rev_map)
  have second: "\<not> startsWith (map digitChar ds) [c, x]" if "x \<in> {CHR ''x'', CHR ''X'', CHR ''o'', CHR ''O'', CHR ''b'', CHR ''B''}" for c x
  proof (cases ds')
    case Nil
    then show ?thesis by (simp add: ds)
  next
    case (Cons d2 ds2)
    with all ds have "d2 < 10" by simp
    with that digitChar_plain [of d2] show ?thesis by (auto simp: ds Cons)
  qed
  have "stringToNumber (map digitChar ds) = decimalLiteral (map digitChar ds)"
    unfolding stringToNumber_def t using d second
    by (simp add: ds digitChar_plain Let_def)
  also have "\<dots> = Fin (real (digitsValue 10 (map digitChar ds)))"
    by (rule decimalLiteral_digits [OF ne all])
  finally show ?thesis using digitsValue_showNat [of n] by (simp add: s)
qed

lemma Number_String_nat:
  "n \<le> 2 ^ 53 \<Longrightarrow> stringToNumber (ToString fmt (Num (Fin (real n)))) = Fin (real n)"
proof -
  assume "n \<le> 2 ^ 53"
  then have "real n \<le> 2 ^ 53" by (metis of_nat_le_iff of_nat_numeral of_nat_power)
  then have "ToString fmt (Num (Fin (real n))) = showNat n" by (simp add: showInt_def)
  then show ?thesis by (simp add: stringToNumber_showNat)
qed

section \<open>The sort contract\<close>

subsection \<open>Consequences of consistency\<close>

lemma consistentOn_refl: "consistentOn cmp S \<Longrightarrow> a \<in> S \<Longrightarrow> cmp a a = 0"
  unfolding consistentOn_def by blast

lemma consistentOn_sym: "consistentOn cmp S \<Longrightarrow> a \<in> S \<Longrightarrow> b \<in> S \<Longrightarrow> cmp a b = 0 \<Longrightarrow> cmp b a = 0"
  unfolding consistentOn_def by blast

lemma consistentOn_eq_trans:
  assumes "consistentOn cmp S" and "a \<in> S" and "b \<in> S" and "c \<in> S"
    and "cmp a b = 0" and "cmp b c = 0"
  shows "cmp a c = 0"
proof -
  from assms(1) have "\<forall>a\<in>S. \<forall>b\<in>S. \<forall>c\<in>S. cmp a b = 0 \<and> cmp b c = 0 \<longrightarrow> cmp a c = 0"
    unfolding consistentOn_def by blast
  with assms(2-) show ?thesis by blast
qed

lemma consistentOn_less_trans:
  assumes "consistentOn cmp S" and "a \<in> S" and "b \<in> S" and "c \<in> S"
    and "cmp a b < 0" and "cmp b c < 0"
  shows "cmp a c < 0"
proof -
  from assms(1) have "\<forall>a\<in>S. \<forall>b\<in>S. \<forall>c\<in>S. cmp a b < 0 \<and> cmp b c < 0 \<longrightarrow> cmp a c < 0"
    unfolding consistentOn_def by blast
  with assms(2-) show ?thesis by blast
qed

lemma consistentOn_greater_trans:
  assumes "consistentOn cmp S" and "a \<in> S" and "b \<in> S" and "c \<in> S"
    and "cmp a b > 0" and "cmp b c > 0"
  shows "cmp a c > 0"
proof -
  from assms(1) have "\<forall>a\<in>S. \<forall>b\<in>S. \<forall>c\<in>S. cmp a b > 0 \<and> cmp b c > 0 \<longrightarrow> cmp a c > 0"
    unfolding consistentOn_def by blast
  with assms(2-) show ?thesis by blast
qed

lemma consistentOn_subset: "consistentOn cmp S \<Longrightarrow> T \<subseteq> S \<Longrightarrow> consistentOn cmp T"
  unfolding consistentOn_def
  by (intro conjI ballI impI; elim conjE) (meson subsetD)+

lemma consistentOn_less_greater:
  assumes c: "consistentOn cmp S" and a: "a \<in> S" and b: "b \<in> S" and l: "cmp a b < 0"
  shows "cmp b a > 0"
proof (rule ccontr)
  assume "\<not> cmp b a > 0"
  then consider "cmp b a = 0" | "cmp b a < 0" by linarith
  then show False
  proof cases
    case 1
    with consistentOn_sym [OF c b a] l show False by simp
  next
    case 2
    with consistentOn_less_trans [OF c a b a l] consistentOn_refl [OF c a] show False by simp
  qed
qed

lemma consistentOn_greater_less:
  assumes c: "consistentOn cmp S" and a: "a \<in> S" and b: "b \<in> S" and l: "cmp a b > 0"
  shows "cmp b a < 0"
proof (rule ccontr)
  assume "\<not> cmp b a < 0"
  then consider "cmp b a = 0" | "cmp b a > 0" by linarith
  then show False
  proof cases
    case 1
    with consistentOn_sym [OF c b a] l show False by simp
  next
    case 2
    with consistentOn_greater_trans [OF c a b a l] consistentOn_refl [OF c a] show False by simp
  qed
qed

lemma consistentOn_total:
  "consistentOn cmp S \<Longrightarrow> a \<in> S \<Longrightarrow> b \<in> S \<Longrightarrow> cmp a b \<le> 0 \<or> cmp b a \<le> 0"
  using consistentOn_greater_less [of cmp S a b] by force

lemma consistentOn_antisym:
  "consistentOn cmp S \<Longrightarrow> a \<in> S \<Longrightarrow> b \<in> S \<Longrightarrow> cmp a b \<le> 0 \<Longrightarrow> cmp b a \<le> 0 \<Longrightarrow> cmp a b = 0"
  using consistentOn_less_greater [of cmp S a b] by force

lemma consistentOn_le_trans:
  assumes c: "consistentOn cmp S" and a: "a \<in> S" and b: "b \<in> S" and d: "d \<in> S"
    and ab: "cmp a b \<le> 0" and bd: "cmp b d \<le> 0"
  shows "cmp a d \<le> 0"
proof (rule ccontr)
  assume "\<not> cmp a d \<le> 0"
  then have ad: "cmp a d > 0" by simp
  then have da: "cmp d a < 0" by (rule consistentOn_greater_less [OF c a d])
  show False
  proof (cases "cmp a b = 0")
    case True
    then have ba: "cmp b a = 0" by (rule consistentOn_sym [OF c a b])
    show False
    proof (cases "cmp b d = 0")
      case True
      with consistentOn_eq_trans [OF c a b d \<open>cmp a b = 0\<close>] ad show False by simp
    next
      case False
      with bd have "cmp b d < 0" by simp
      from consistentOn_less_trans [OF c b d a this da] ba show False by simp
    qed
  next
    case False
    with ab have lab: "cmp a b < 0" by simp
    from consistentOn_less_trans [OF c d a b da lab] have db: "cmp d b < 0" .
    from consistentOn_less_greater [OF c d b db] bd show False by simp
  qed
qed

subsection \<open>A stable sorted permutation is unique\<close>

lemma sorted_head_least:
  assumes c: "consistentOn cmp (set (z # zs))" and s: "sorted_wrt (\<lambda>a b. cmp a b \<le> 0) (z # zs)"
    and y: "y \<in> set (z # zs)"
  shows "cmp z y \<le> 0"
proof (cases "y = z")
  case True
  with consistentOn_refl [OF c, of z] show ?thesis by simp
next
  case False
  with y s show ?thesis by auto
qed

lemma stable_sorted_unique:
  assumes "consistentOn cmp (set ys)"
    and "sorted_wrt (\<lambda>a b. cmp a b \<le> 0) ys" and "sorted_wrt (\<lambda>a b. cmp a b \<le> 0) zs"
    and "mset ys = mset zs"
    and "\<forall>x\<in>set ys. filter (\<lambda>y. cmp x y = 0) ys = filter (\<lambda>y. cmp x y = 0) zs"
  shows "ys = zs"
  using assms
proof (induction ys arbitrary: zs)
  case Nil
  then show ?case by simp
next
  case (Cons y ys)
  note c = Cons.prems(1) and sy = Cons.prems(2) and sz = Cons.prems(3)
    and m = Cons.prems(4) and f = Cons.prems(5)
  from m have "zs \<noteq> []" by auto
  then obtain z zs' where zs: "zs = z # zs'" by (cases zs) auto
  have m': "mset (y # ys) = mset (z # zs')" using m by (simp only: zs)
  then have sets: "set (y # ys) = set (z # zs')" by (rule mset_eq_setD)
  have cz: "consistentOn cmp (set (z # zs'))" using c by (simp only: sets)
  have sz': "sorted_wrt (\<lambda>a b. cmp a b \<le> 0) (z # zs')" using sz by (simp only: zs)
  have yin: "y \<in> set (y # ys)" by simp
  have "z \<in> set (z # zs')" by simp
  then have zin: "z \<in> set (y # ys)" by (simp only: sets)
  have yin': "y \<in> set (z # zs')" using yin by (simp only: sets)
  have zy: "cmp z y \<le> 0" by (rule sorted_head_least [OF cz sz' yin'])
  have "cmp y z \<le> 0" by (rule sorted_head_least [OF c sy zin])
  then have yz: "cmp y z = 0" by (rule consistentOn_antisym [OF c yin zin _ zy])
  have yy: "cmp y y = 0" by (rule consistentOn_refl [OF c yin])
  have l: "filter (\<lambda>u. cmp y u = 0) (y # ys) = y # filter (\<lambda>u. cmp y u = 0) ys"
    using yy by simp
  have r: "filter (\<lambda>u. cmp y u = 0) zs = z # filter (\<lambda>u. cmp y u = 0) zs'"
    using yz by (simp add: zs)
  from f yin have "filter (\<lambda>u. cmp y u = 0) (y # ys) = filter (\<lambda>u. cmp y u = 0) zs"
    by blast
  then have "y # filter (\<lambda>u. cmp y u = 0) ys = z # filter (\<lambda>u. cmp y u = 0) zs'"
    by (simp only: l r)
  then have eq: "y = z" by (rule list.inject [THEN iffD1, THEN conjunct1])
  have "ys = zs'"
  proof (rule Cons.IH)
    have "set ys \<subseteq> set (y # ys)" by auto
    then show "consistentOn cmp (set ys)" by (rule consistentOn_subset [OF c])
    show "sorted_wrt (\<lambda>a b. cmp a b \<le> 0) ys" using sy by simp
    show "sorted_wrt (\<lambda>a b. cmp a b \<le> 0) zs'" using sz' by simp
    show "mset ys = mset zs'" using m' by (simp add: eq)
    show "\<forall>x\<in>set ys. filter (\<lambda>y. cmp x y = 0) ys = filter (\<lambda>y. cmp x y = 0) zs'"
    proof
      fix x assume "x \<in> set ys"
      then have "x \<in> set (y # ys)" by simp
      with f have "filter (\<lambda>u. cmp x u = 0) (y # ys) = filter (\<lambda>u. cmp x u = 0) zs"
        by blast
      then show "filter (\<lambda>y. cmp x y = 0) ys = filter (\<lambda>y. cmp x y = 0) zs'"
        by (simp add: zs eq split: if_splits)
    qed
  qed
  with eq zs show ?case by simp
qed

lemma stableSortOf_unique:
  assumes c: "consistentOn cmp (set xs)"
    and y: "stableSortOf cmp xs ys" and z: "stableSortOf cmp xs zs"
  shows "ys = zs"
proof -
  from y have my: "mset ys = mset xs" and sy: "sorted_wrt (\<lambda>a b. cmp a b \<le> 0) ys"
    and fy: "\<forall>x\<in>set xs. filter (\<lambda>y. cmp x y = 0) ys = filter (\<lambda>y. cmp x y = 0) xs"
    unfolding stableSortOf_def by blast+
  from z have mz: "mset zs = mset xs" and sz: "sorted_wrt (\<lambda>a b. cmp a b \<le> 0) zs"
    and fz: "\<forall>x\<in>set xs. filter (\<lambda>y. cmp x y = 0) zs = filter (\<lambda>y. cmp x y = 0) xs"
    unfolding stableSortOf_def by blast+
  have sety: "set ys = set xs" using my by (rule mset_eq_setD)
  show ?thesis
  proof (rule stable_sorted_unique [OF _ sy sz])
    show "consistentOn cmp (set ys)" using c by (simp only: sety)
    show "mset ys = mset zs" by (simp only: my mz)
    show "\<forall>x\<in>set ys. filter (\<lambda>y. cmp x y = 0) ys = filter (\<lambda>y. cmp x y = 0) zs"
    proof
      fix x assume "x \<in> set ys"
      then have x: "x \<in> set xs" by (simp only: sety)
      from fy x have a: "filter (\<lambda>y. cmp x y = 0) ys = filter (\<lambda>y. cmp x y = 0) xs" by blast
      from fz x have b: "filter (\<lambda>y. cmp x y = 0) zs = filter (\<lambda>y. cmp x y = 0) xs" by blast
      show "filter (\<lambda>y. cmp x y = 0) ys = filter (\<lambda>y. cmp x y = 0) zs"
        by (simp only: a b)
    qed
  qed
qed

lemma stableSortOf_self:
  "sorted_wrt (\<lambda>a b. cmp a b \<le> 0) ys \<Longrightarrow> stableSortOf cmp ys ys"
  by (simp add: stableSortOf_def)

lemma conformingSortD:
  "conformingSort srt \<Longrightarrow> consistentOn cmp (set xs) \<Longrightarrow> stableSortOf cmp xs (srt cmp xs)"
  by (simp add: conformingSort_def)

lemma conforming_idempotent:
  assumes srt: "conformingSort srt" and c: "consistentOn cmp (set xs)"
  shows "srt cmp (srt cmp xs) = srt cmp xs"
proof -
  have y: "stableSortOf cmp xs (srt cmp xs)"
    by (rule conformingSortD [OF srt c])
  then have my: "mset (srt cmp xs) = mset xs" and sy: "sorted_wrt (\<lambda>a b. cmp a b \<le> 0) (srt cmp xs)"
    unfolding stableSortOf_def by blast+
  from my have sets: "set (srt cmp xs) = set xs" by (rule mset_eq_setD)
  have cy: "consistentOn cmp (set (srt cmp xs))" using c by (simp only: sets)
  have "stableSortOf cmp (srt cmp xs) (srt cmp (srt cmp xs))"
    by (rule conformingSortD [OF srt cy])
  moreover have "stableSortOf cmp (srt cmp xs) (srt cmp xs)"
    using sy by (rule stableSortOf_self)
  ultimately show ?thesis by (rule stableSortOf_unique [OF cy])
qed

subsection \<open>Insertion sort meets the contract\<close>

lemma mset_insertBy: "mset (insertBy cmp x ys) = add_mset x (mset ys)"
  by (induction ys) auto

lemma set_insertBy: "set (insertBy cmp x ys) = insert x (set ys)"
  by (induction ys) auto

lemma mset_insertionSort: "mset (insertionSort cmp xs) = mset xs"
  by (induction xs) (auto simp: insertionSort_def mset_insertBy)

lemma set_insertionSort: "set (insertionSort cmp xs) = set xs"
  by (induction xs) (auto simp: insertionSort_def set_insertBy)

lemma sorted_insertBy:
  assumes c: "consistentOn cmp S" and x: "x \<in> S"
  shows "set ys \<subseteq> S \<Longrightarrow> sorted_wrt (\<lambda>a b. cmp a b \<le> 0) ys \<Longrightarrow>
           sorted_wrt (\<lambda>a b. cmp a b \<le> 0) (insertBy cmp x ys)"
proof (induction ys)
  case Nil
  then show ?case by simp
next
  case (Cons y ys)
  have y: "y \<in> S" using Cons.prems by simp
  show ?case
  proof (cases "cmp x y \<le> 0")
    case True
    have "cmp x u \<le> 0" if "u \<in> set ys" for u
    proof -
      have "u \<in> S" and "cmp y u \<le> 0" using that Cons.prems by auto
      with consistentOn_le_trans [OF c x y _ True] show ?thesis by blast
    qed
    with True Cons.prems show ?thesis by auto
  next
    case False
    with consistentOn_total [OF c x y] have "cmp y x \<le> 0" by simp
    with False Cons show ?thesis by (auto simp: set_insertBy)
  qed
qed

lemma sorted_insertionSort:
  "consistentOn cmp S \<Longrightarrow> set xs \<subseteq> S \<Longrightarrow> sorted_wrt (\<lambda>a b. cmp a b \<le> 0) (insertionSort cmp xs)"
proof (induction xs)
  case Nil
  then show ?case by (simp add: insertionSort_def)
next
  case (Cons x xs)
  have "sorted_wrt (\<lambda>a b. cmp a b \<le> 0) (insertBy cmp x (insertionSort cmp xs))"
    by (rule sorted_insertBy [OF Cons.prems(1)]) (use Cons in \<open>auto simp: set_insertionSort\<close>)
  then show ?case by (simp add: insertionSort_def)
qed

lemma filter_insertBy:
  assumes c: "consistentOn cmp S" and x: "x \<in> S" and k: "k \<in> S"
  shows "set ys \<subseteq> S \<Longrightarrow>
     filter (\<lambda>u. cmp k u = 0) (insertBy cmp x ys)
       = (if cmp k x = 0 then x # filter (\<lambda>u. cmp k u = 0) ys else filter (\<lambda>u. cmp k u = 0) ys)"
proof (induction ys)
  case Nil
  then show ?case by simp
next
  case (Cons y ys)
  have y: "y \<in> S" using Cons.prems by simp
  show ?case
  proof (cases "cmp x y \<le> 0")
    case True
    then show ?thesis by simp
  next
    case False
    have "\<not> (cmp k x = 0 \<and> cmp k y = 0)"
    proof
      assume h: "cmp k x = 0 \<and> cmp k y = 0"
      then have "cmp x k = 0" using consistentOn_sym [OF c k x] by simp
      with h consistentOn_eq_trans [OF c x k y] have "cmp x y = 0" by simp
      with False show False by simp
    qed
    with False Cons show ?thesis by auto
  qed
qed

lemma filter_insertionSort:
  "consistentOn cmp S \<Longrightarrow> set xs \<subseteq> S \<Longrightarrow> k \<in> S \<Longrightarrow>
     filter (\<lambda>u. cmp k u = 0) (insertionSort cmp xs) = filter (\<lambda>u. cmp k u = 0) xs"
proof (induction xs)
  case Nil
  then show ?case by (simp add: insertionSort_def)
next
  case (Cons x xs)
  have "filter (\<lambda>u. cmp k u = 0) (insertBy cmp x (insertionSort cmp xs))
          = (if cmp k x = 0 then x # filter (\<lambda>u. cmp k u = 0) (insertionSort cmp xs)
             else filter (\<lambda>u. cmp k u = 0) (insertionSort cmp xs))"
    by (rule filter_insertBy [OF Cons.prems(1)]) (use Cons.prems in \<open>auto simp: set_insertionSort\<close>)
  with Cons show ?case by (simp add: insertionSort_def)
qed

lemma insertionSort_conforming: "conformingSort insertionSort"
  unfolding conformingSort_def stableSortOf_def
  by (auto simp: mset_insertionSort sorted_insertionSort filter_insertionSort)

subsection \<open>The preview's comparison function on a column of one kind\<close>

lemma stringLess_lexord:
  "stringLess s t = ((s, t) \<in> lexord {(c, d). (of_char c :: nat) < of_char d})"
  by (induction s t rule: stringLess.induct) auto

lemma stringLess_irrefl: "\<not> stringLess s s"
  by (simp add: stringLess_lexord lexord_irreflexive)

lemma stringLess_trans: "stringLess s t \<Longrightarrow> stringLess t u \<Longrightarrow> stringLess s u"
  unfolding stringLess_lexord
  by (erule lexord_trans) (auto simp: trans_def)

lemma stringLess_total: "s \<noteq> t \<Longrightarrow> stringLess s t \<or> stringLess t s"
proof -
  have "\<forall>a b. (a, b) \<in> {(c, d). (of_char c :: nat) < of_char d} \<or> a = b
               \<or> (b, a) \<in> {(c, d). (of_char c :: nat) < of_char d}"
    by (auto simp: neq_iff)
  from lexord_linear [OF this, of s t] show "s \<noteq> t \<Longrightarrow> stringLess s t \<or> stringLess t s"
    by (simp add: stringLess_lexord)
qed

lemma numLess_irrefl: "\<not> numLess a a"
  by (cases a) auto

lemma numLess_trans: "numLess a b \<Longrightarrow> numLess b c \<Longrightarrow> numLess a c"
  by (cases a; cases b; cases c) auto

lemma numLess_total: "a \<noteq> NaN \<Longrightarrow> b \<noteq> NaN \<Longrightarrow> a \<noteq> b \<Longrightarrow> numLess a b \<or> numLess b a"
  by (cases a; cases b) auto

lemma isString_cases: "isString k = (\<exists>s. k = Str s)"
  by (cases k) auto

lemma isOrderedNumber_cases: "isOrderedNumber k = (\<exists>n. k = Num n \<and> n \<noteq> NaN)"
  by (cases k) auto

lemma isBoolean_cases: "isBoolean k = (\<exists>b. k = Bool b)"
  by (cases k) auto

lemma oneKind_pair:
  assumes "oneKind K" and "a \<in> K" and "b \<in> K"
  obtains s t where "a = Str s" and "b = Str t"
  | m n where "a = Num m" and "b = Num n" and "m \<noteq> NaN" and "n \<noteq> NaN"
  | p q where "a = Bool p" and "b = Bool q"
proof -
  from assms(1) consider "\<forall>k\<in>K. \<exists>s. k = Str s" | "\<forall>k\<in>K. \<exists>n. k = Num n \<and> n \<noteq> NaN"
    | "\<forall>k\<in>K. \<exists>b. k = Bool b"
    unfolding oneKind_def isString_cases isOrderedNumber_cases isBoolean_cases by blast
  then show thesis
  proof cases
    case 1
    with assms(2,3) obtain s t where "a = Str s" and "b = Str t" by blast
    then show thesis by (rule that(1))
  next
    case 2
    with assms(2,3) obtain m n where "a = Num m" and "b = Num n" and "m \<noteq> NaN" and "n \<noteq> NaN"
      by blast
    then show thesis by (rule that(2))
  next
    case 3
    with assms(2,3) obtain p q where "a = Bool p" and "b = Bool q" by blast
    then show thesis by (rule that(3))
  qed
qed

lemma oneKind_strictEq:
  assumes "oneKind K" and "a \<in> K" and "b \<in> K"
  shows "strictEq a b = (a = b)"
  using assms by (rule oneKind_pair) auto

lemma oneKind_irrefl:
  assumes "oneKind K" and "a \<in> K"
  shows "\<not> jsLess rnd a a"
  using assms(1,2,2) by (rule oneKind_pair) (auto simp: stringLess_irrefl numLess_irrefl)

lemma oneKind_trans:
  assumes k: "oneKind K" and a: "a \<in> K" and b: "b \<in> K" and c: "c \<in> K"
    and ab: "jsLess rnd a b" and bc: "jsLess rnd b c"
  shows "jsLess rnd a c"
  using k a b
proof (rule oneKind_pair)
  fix s t assume st: "a = Str s" "b = Str t"
  from k b c obtain u where "c = Str u" by (rule oneKind_pair) (auto simp: st)
  with st ab bc show ?thesis by (auto dest: stringLess_trans)
next
  fix m n assume mn: "a = Num m" "b = Num n" "m \<noteq> NaN" "n \<noteq> NaN"
  from k b c obtain p where "c = Num p" by (rule oneKind_pair) (auto simp: mn)
  with mn ab bc show ?thesis by (auto dest: numLess_trans)
next
  fix p q assume pq: "a = Bool p" "b = Bool q"
  from k b c obtain r where "c = Bool r" by (rule oneKind_pair) (auto simp: pq)
  with pq ab bc show ?thesis by (auto split: if_splits)
qed

lemma oneKind_total:
  assumes "oneKind K" and "a \<in> K" and "b \<in> K" and "a \<noteq> b"
  shows "jsLess rnd a b \<or> jsLess rnd b a"
  using assms(1-3)
proof (rule oneKind_pair)
  fix s t assume "a = Str s" "b = Str t"
  with assms(4) stringLess_total [of s t] show ?thesis by auto
next
  fix m n assume "a = Num m" "b = Num n" "m \<noteq> NaN" "n \<noteq> NaN"
  with assms(4) numLess_total [of m n] show ?thesis by auto
next
  fix p q assume "a = Bool p" "b = Bool q"
  with assms(4) show ?thesis by auto
qed

lemma oneKind_asym:
  "oneKind K \<Longrightarrow> a \<in> K \<Longrightarrow> b \<in> K \<Longrightarrow> jsLess rnd a b \<Longrightarrow> \<not> jsLess rnd b a"
  using oneKind_trans [of K a b a rnd] oneKind_irrefl [of K a rnd] by blast

lemma uniformColumn_oneKind:
  "uniformColumn ci rows \<Longrightarrow> oneKind ((\<lambda>r. cellAt r ci) ` set rows)"
  by (auto simp: uniformColumn_def oneKind_def list_all_iff)

lemma compareRows_zero:
  assumes k: "oneKind ((\<lambda>r. cellAt r ci) ` S)" and a: "a \<in> S" and b: "b \<in> S"
  shows "(compareRows rnd ci dir a b = 0) = (cellAt a ci = cellAt b ci)"
proof -
  have "strictEq (cellAt a ci) (cellAt b ci) = (cellAt a ci = cellAt b ci)"
    by (rule oneKind_strictEq [OF k]) (use a b in auto)
  then show ?thesis by (simp add: compareRows_def Let_def)
qed

lemma compareRows_less:
  assumes k: "oneKind ((\<lambda>r. cellAt r ci) ` S)" and a: "a \<in> S" and b: "b \<in> S"
  shows "(compareRows rnd ci dir a b < 0)
           = (if dir = asc then jsLess rnd (cellAt a ci) (cellAt b ci)
              else jsLess rnd (cellAt b ci) (cellAt a ci))"
proof -
  let ?K = "(\<lambda>r. cellAt r ci) ` S"
  have ka: "cellAt a ci \<in> ?K" and kb: "cellAt b ci \<in> ?K" using a b by auto
  note e = oneKind_strictEq [OF k ka kb]
  note t = oneKind_total [OF k ka kb, of rnd]
  note i = oneKind_irrefl [OF k ka, of rnd]
  note n1 = oneKind_asym [OF k ka kb, of rnd]
  note n2 = oneKind_asym [OF k kb ka, of rnd]
  show ?thesis
    using t i n1 n2 by (cases dir) (auto simp: compareRows_def Let_def e)
qed

lemma compareRows_greater:
  assumes k: "oneKind ((\<lambda>r. cellAt r ci) ` S)" and a: "a \<in> S" and b: "b \<in> S"
  shows "(compareRows rnd ci dir a b > 0)
           = (if dir = asc then jsLess rnd (cellAt b ci) (cellAt a ci)
              else jsLess rnd (cellAt a ci) (cellAt b ci))"
proof -
  let ?K = "(\<lambda>r. cellAt r ci) ` S"
  have ka: "cellAt a ci \<in> ?K" and kb: "cellAt b ci \<in> ?K" using a b by auto
  note e = oneKind_strictEq [OF k ka kb]
  note t = oneKind_total [OF k ka kb, of rnd]
  note i = oneKind_irrefl [OF k ka, of rnd]
  note n1 = oneKind_asym [OF k ka kb, of rnd]
  note n2 = oneKind_asym [OF k kb ka, of rnd]
  show ?thesis
    using t i n1 n2 by (cases dir) (auto simp: compareRows_def Let_def e)
qed

lemma compareRows_consistent:
  assumes u: "uniformColumn ci rows"
  shows "consistentOn (compareRows rnd ci dir) (set rows)"
proof -
  let ?key = "\<lambda>r. cellAt r ci"
  have k: "oneKind (?key ` set rows)" by (rule uniformColumn_oneKind [OF u])
  have tr: "jsLess rnd (?key a) (?key c)"
    if "a \<in> set rows" "b \<in> set rows" "c \<in> set rows"
      "jsLess rnd (?key a) (?key b)" "jsLess rnd (?key b) (?key c)" for a b c
    by (rule oneKind_trans [OF k _ _ _ that(4,5)]) (use that in auto)
  show ?thesis
    unfolding consistentOn_def
  proof (intro conjI ballI impI)
    fix a assume "a \<in> set rows"
    then show "compareRows rnd ci dir a a = 0" by (simp add: compareRows_zero [OF k])
  next
    fix a b assume "a \<in> set rows" "b \<in> set rows" "compareRows rnd ci dir a b = 0"
    then show "compareRows rnd ci dir b a = 0" by (simp add: compareRows_zero [OF k])
  next
    fix a b c assume "a \<in> set rows" "b \<in> set rows" "c \<in> set rows"
      "compareRows rnd ci dir a b = 0 \<and> compareRows rnd ci dir b c = 0"
    then show "compareRows rnd ci dir a c = 0" by (simp add: compareRows_zero [OF k])
  next
    fix a b c assume h: "a \<in> set rows" "b \<in> set rows" "c \<in> set rows"
      and "compareRows rnd ci dir a b < 0 \<and> compareRows rnd ci dir b c < 0"
    then have "compareRows rnd ci dir a b < 0" and "compareRows rnd ci dir b c < 0" by blast+
    with h tr [of a b c] tr [of c b a] show "compareRows rnd ci dir a c < 0"
      by (simp add: compareRows_less [OF k] split: if_splits)
  next
    fix a b c assume h: "a \<in> set rows" "b \<in> set rows" "c \<in> set rows"
      and "0 < compareRows rnd ci dir a b \<and> 0 < compareRows rnd ci dir b c"
    then have "0 < compareRows rnd ci dir a b" and "0 < compareRows rnd ci dir b c" by blast+
    with h tr [of a b c] tr [of c b a] show "0 < compareRows rnd ci dir a c"
      by (simp add: compareRows_greater [OF k] split: if_splits)
  qed
qed


section \<open>The claims\<close>

text \<open>
  C1. With \<^verbatim>\<open>showAllRows\<close> off, the visible rows are the first ten of the filtered and
  sorted rows (so at most ten), and the view announces a truncation exactly when more
  than ten rows matched. With \<^verbatim>\<open>showAllRows\<close> on, the visible rows are all of the
  filtered and sorted rows and no truncation is announced. By \<open>truncationNotice_cut\<close>
  the announcement is made exactly when the visible rows are fewer than the matched
  rows; the flag \<^verbatim>\<open>hasMoreRows\<close> alone, which also enables the toggle button, does not
  depend on \<^verbatim>\<open>showAllRows\<close> (\<open>hasMoreRows_showAllRows\<close>).
\<close>

theorem preview_pagination:
  "previewRows eng rows headers (st\<lparr>showAllRows := False\<rparr>)
     = take 10 (filteredAndSortedData eng rows headers st)
   \<and> length (previewRows eng rows headers (st\<lparr>showAllRows := False\<rparr>)) \<le> 10
   \<and> truncationNotice eng rows headers (st\<lparr>showAllRows := False\<rparr>)
       = (length (filteredAndSortedData eng rows headers st) > 10)
   \<and> previewRows eng rows headers (st\<lparr>showAllRows := True\<rparr>)
       = filteredAndSortedData eng rows headers st
   \<and> length (previewRows eng rows headers (st\<lparr>showAllRows := True\<rparr>))
       = length (filteredAndSortedData eng rows headers st)
   \<and> \<not> truncationNotice eng rows headers (st\<lparr>showAllRows := True\<rparr>)"
  by (simp add: previewRows_def truncationNotice_def hasMoreRows_def maxPreviewRows_def
      filteredAndSortedData_showAllRows)

theorem preview_pagination_witness:
  "previewRows referenceEngine (replicate 11 [Some (Str ''a'')]) [''h''] (initialView\<lparr>showAllRows := False\<rparr>)
     = replicate 10 [Some (Str ''a'')]
   \<and> truncationNotice referenceEngine (replicate 11 [Some (Str ''a'')]) [''h''] (initialView\<lparr>showAllRows := False\<rparr>)
   \<and> previewRows referenceEngine (replicate 11 [Some (Str ''a'')]) [''h''] (initialView\<lparr>showAllRows := True\<rparr>)
     = replicate 11 [Some (Str ''a'')]
   \<and> \<not> truncationNotice referenceEngine (replicate 11 [Some (Str ''a'')]) [''h''] (initialView\<lparr>showAllRows := True\<rparr>)"
proof -
  have f: "filteredAndSortedData referenceEngine (replicate 11 [Some (Str ''a'')]) [''h''] initialView
             = replicate 11 [Some (Str ''a'')]"
    by (simp add: filteredAndSortedData_def sortRows_def searchFilter_def initialView_def)
  show ?thesis
    using preview_pagination [of referenceEngine "replicate 11 [Some (Str ''a'')]" "[''h'']" initialView]
    by (simp add: f)
qed

lemma trim_nonempty: "trim s \<noteq> [] \<Longrightarrow> s \<noteq> []"
  by (auto simp: trim_def)

lemma specNumeric_numericY: "specNumeric v \<Longrightarrow> numericY v"
  by (cases v) (auto simp: numericY_def isNaN_def dest: trim_nonempty)

lemma specNotNumeric_numericY: "specNotNumeric v \<Longrightarrow> \<not> numericY v"
  by (cases v) (auto simp: numericY_def isNaN_def)

text \<open>What \<^verbatim>\<open>chartData\<close> does with the filter \<open>numericY\<close> of the source, in full.\<close>

lemma chartData_no_numeric_iff:
  assumes "xAxis st \<noteq> []" "yAxis st \<noteq> []" "rows \<noteq> []"
    and "xAxis st \<in> set headers" "yAxis st \<in> set headers"
  shows "(chartData rows headers st = (st\<lparr>error := Some noNumericDataMessage\<rparr>, None))
         = (\<not> list_ex (\<lambda>r. numericY (cellAt r (indexOf headers (yAxis st)))) rows)"
  using assms
  by (auto simp: chartData_def Let_def indexOf_absent filter_empty_conv list_ex_iff)

lemma chartData_numeric:
  assumes "xAxis st \<noteq> []" "yAxis st \<noteq> []" "rows \<noteq> []"
    and "xAxis st \<in> set headers" "yAxis st \<in> set headers"
    and "list_ex (\<lambda>r. numericY (cellAt r (indexOf headers (yAxis st)))) rows"
  shows "chartData rows headers st =
           (st, Some [buildTrace (chartType st) (yAxis st @ '' vs '' @ xAxis st)
                        (map (\<lambda>r. cellAt r (indexOf headers (xAxis st))) rows)
                        (map (\<lambda>r. cellAt r (indexOf headers (yAxis st))) rows)])"
  using assms
  by (auto simp: chartData_def Let_def indexOf_absent filter_empty_conv list_ex_iff)

text \<open>
  C2 (as the code has it). With both axes chosen, data present and both columns found,
  and for every chart type, pie included: when some value of the Y column is a number
  other than \<^verbatim>\<open>NaN\<close> or a non-blank string that parses fully as a number,
  \<^verbatim>\<open>chartData\<close> returns a trace and reports nothing; when every value of the Y column
  is an empty cell,
  \<^verbatim>\<open>null\<close>, \<^verbatim>\<open>NaN\<close>, the empty string or a string that does not parse as a number, it
  returns no trace and reports ``no numeric data''.
\<close>

theorem no_numeric_data_all_types:
  assumes "xAxis st \<noteq> []" "yAxis st \<noteq> []" "rows \<noteq> []"
    and "xAxis st \<in> set headers" "yAxis st \<in> set headers"
  shows "(list_ex (\<lambda>r. specNumeric (cellAt r (indexOf headers (yAxis st)))) rows \<longrightarrow>
            chartData rows headers st =
              (st, Some [buildTrace (chartType st) (yAxis st @ '' vs '' @ xAxis st)
                           (map (\<lambda>r. cellAt r (indexOf headers (xAxis st))) rows)
                           (map (\<lambda>r. cellAt r (indexOf headers (yAxis st))) rows)]))
       \<and> (list_all (\<lambda>r. specNotNumeric (cellAt r (indexOf headers (yAxis st)))) rows \<longrightarrow>
            chartData rows headers st = (st\<lparr>error := Some noNumericDataMessage\<rparr>, None))"
proof (intro conjI impI)
  assume "list_ex (\<lambda>r. specNumeric (cellAt r (indexOf headers (yAxis st)))) rows"
  then have "list_ex (\<lambda>r. numericY (cellAt r (indexOf headers (yAxis st)))) rows"
    by (auto simp: list_ex_iff dest: specNumeric_numericY)
  then show "chartData rows headers st =
              (st, Some [buildTrace (chartType st) (yAxis st @ '' vs '' @ xAxis st)
                           (map (\<lambda>r. cellAt r (indexOf headers (xAxis st))) rows)
                           (map (\<lambda>r. cellAt r (indexOf headers (yAxis st))) rows)])"
    by (rule chartData_numeric [OF assms])
next
  assume "list_all (\<lambda>r. specNotNumeric (cellAt r (indexOf headers (yAxis st)))) rows"
  then have "\<not> list_ex (\<lambda>r. numericY (cellAt r (indexOf headers (yAxis st)))) rows"
    by (auto simp: list_ex_iff list_all_iff dest: specNotNumeric_numericY)
  then show "chartData rows headers st = (st\<lparr>error := Some noNumericDataMessage\<rparr>, None)"
    by (simp add: chartData_no_numeric_iff [OF assms])
qed

theorem no_numeric_pie_counterexample:
  "chartData [[Some (Str ''a''), Some (Str ''x'')], [Some (Str ''b''), Some (Str ''y'')],
              [Some (Str ''c''), Some (Str ''z'')]] [''Label'', ''Code'']
      \<lparr>xAxis = ''Label'', yAxis = ''Code'', chartType = pie, error = None\<rparr>
     = (\<lparr>xAxis = ''Label'', yAxis = ''Code'', chartType = pie,
          error = Some ''Selected Y-axis column contains no numeric data''\<rparr>, None)
   \<and> snd (chartData [[Some (Str ''a''), Some (Bool True)]] [''Label'', ''Code'']
      \<lparr>xAxis = ''Label'', yAxis = ''Code'', chartType = bar, error = None\<rparr>) \<noteq> None"
  by (simp add: chartData_def cellAt_def numericY_def isNaN_def noNumericDataMessage_def
      num_eval)

theorem no_numeric_data_all_types_witness:
  "chartData [[Some (Str ''a''), Some (Str ''x'')], [Some (Str ''b''), None]] [''Label'', ''Code'']
      \<lparr>xAxis = ''Label'', yAxis = ''Code'', chartType = bar, error = None\<rparr>
     = (\<lparr>xAxis = ''Label'', yAxis = ''Code'', chartType = bar,
          error = Some noNumericDataMessage\<rparr>, None)
   \<and> chartData [[Some (Str ''a''), Some (Str [CHR 0xA0, CHR ''1'', CHR ''2''])],
                [Some (Str ''b''), Some (Str ''x'')]] [''Label'', ''Code'']
      \<lparr>xAxis = ''Label'', yAxis = ''Code'', chartType = pie, error = None\<rparr>
     = (\<lparr>xAxis = ''Label'', yAxis = ''Code'', chartType = pie, error = None\<rparr>,
        Some [buildTrace pie ''Code vs Label'' [Str ''a'', Str ''b'']
                [Str [CHR 0xA0, CHR ''1'', CHR ''2''], Str ''x'']])"
proof -
  let ?h = "[''Label'', ''Code'']"
  let ?bar = "\<lparr>xAxis = ''Label'', yAxis = ''Code'', chartType = bar, error = None\<rparr>"
  let ?pie = "\<lparr>xAxis = ''Label'', yAxis = ''Code'', chartType = pie, error = None\<rparr>"
  let ?none = "[[Some (Str ''a''), Some (Str ''x'')], [Some (Str ''b''), None]]"
  let ?some = "[[Some (Str ''a''), Some (Str [CHR 0xA0, CHR ''1'', CHR ''2''])],
                [Some (Str ''b''), Some (Str ''x'')]]"
  have n: "list_all (\<lambda>r. specNotNumeric (cellAt r (indexOf ?h (yAxis ?bar)))) ?none"
    by (simp add: cellAt_def num_eval)
  have y: "list_ex (\<lambda>r. specNumeric (cellAt r (indexOf ?h (yAxis ?pie)))) ?some"
    by (simp add: cellAt_def num_eval)
  have "list_all (\<lambda>r. specNotNumeric (cellAt r (indexOf ?h (yAxis ?bar)))) ?none \<longrightarrow>
          chartData ?none ?h ?bar = (?bar\<lparr>error := Some noNumericDataMessage\<rparr>, None)"
    by (rule conjunct2 [OF no_numeric_data_all_types]) simp_all
  then have a: "chartData ?none ?h ?bar = (?bar\<lparr>error := Some noNumericDataMessage\<rparr>, None)"
    using n by (rule mp)
  have "list_ex (\<lambda>r. specNumeric (cellAt r (indexOf ?h (yAxis ?pie)))) ?some \<longrightarrow>
          chartData ?some ?h ?pie =
            (?pie, Some [buildTrace (chartType ?pie) (yAxis ?pie @ '' vs '' @ xAxis ?pie)
                           (map (\<lambda>r. cellAt r (indexOf ?h (xAxis ?pie))) ?some)
                           (map (\<lambda>r. cellAt r (indexOf ?h (yAxis ?pie))) ?some)])"
    by (rule conjunct1 [OF no_numeric_data_all_types]) simp_all
  then have b: "chartData ?some ?h ?pie =
            (?pie, Some [buildTrace (chartType ?pie) (yAxis ?pie @ '' vs '' @ xAxis ?pie)
                           (map (\<lambda>r. cellAt r (indexOf ?h (xAxis ?pie))) ?some)
                           (map (\<lambda>r. cellAt r (indexOf ?h (yAxis ?pie))) ?some)])"
    using y by (rule mp)
  show ?thesis unfolding a b by (simp add: cellAt_def)
qed

text \<open>
  C3 (as the code has it). When an axis names a column that is not among the headers,
  \<^verbatim>\<open>chartData\<close> yields no trace and leaves the component state, its error message
  included, as it was: nothing is reported.
\<close>

theorem missing_column_silent:
  "xAxis st \<notin> set headers \<or> yAxis st \<notin> set headers \<Longrightarrow>
     chartData rows headers st = (st, None)"
  by (auto simp: chartData_def Let_def indexOf_absent)

theorem missing_column_counterexample:
  "chartData salesRows salesHeaders \<lparr>xAxis = ''Region'', yAxis = ''Sales'', chartType = bar, error = None\<rparr>
     = (\<lparr>xAxis = ''Region'', yAxis = ''Sales'', chartType = bar, error = None\<rparr>, None)"
  by (simp add: chartData_def salesRows_def salesHeaders_def)

theorem missing_column_silent_witness:
  "chartData salesRows salesHeaders \<lparr>xAxis = ''Name'', yAxis = ''Profit'', chartType = line, error = None\<rparr>
     = (\<lparr>xAxis = ''Name'', yAxis = ''Profit'', chartType = line, error = None\<rparr>, None)"
  using missing_column_silent [of "\<lparr>xAxis = ''Name'', yAxis = ''Profit'', chartType = line, error = None\<rparr>" salesHeaders salesRows]
  by (simp add: salesHeaders_def)

text \<open>
  C4 (as the code has it). Whenever the comparison function is a consistent comparator
  on the rows to sort (as it is on every column of only strings, of only numbers other
  than \<^verbatim>\<open>NaN\<close>, or of only booleans, by \<open>compareRows_consistent\<close>), then, under every
  sort that meets the language's contract and every rounding of numeric strings, rows
  whose keys are \<^verbatim>\<open>===\<close> keep their original order, and sorting twice by the same
  column and direction gives the same sequence as sorting once. Where the comparison
  function is not consistent on the rows, as for numbers together with a text that is
  no number, the order is left to the engine, and V8 reorders rows with equal keys.
\<close>

theorem sort_consistent_column:
  assumes srt: "conformingSort (arraySort eng)"
    and col: "sortColumn st = Some c"
    and con: "consistentOn
                (compareRows (roundToDouble eng) (indexOf headers c) (sortDirection st)) (set rows)"
  shows "(\<forall>r\<in>set rows.
            filter (\<lambda>u. strictEq (cellAt r (indexOf headers c)) (cellAt u (indexOf headers c)))
              (sortRows eng headers st rows)
          = filter (\<lambda>u. strictEq (cellAt r (indexOf headers c)) (cellAt u (indexOf headers c)))
              rows)
       \<and> sortRows eng headers st (sortRows eng headers st rows) = sortRows eng headers st rows"
proof (cases "c = []")
  case True
  with col show ?thesis by (simp add: sortRows_def)
next
  case False
  let ?cmp = "compareRows (roundToDouble eng) (indexOf headers c) (sortDirection st)"
  have s: "sortRows eng headers st xs = arraySort eng ?cmp xs" for xs
    using col False by (simp add: sortRows_def)
  have st: "stableSortOf ?cmp rows (arraySort eng ?cmp rows)"
    by (rule conformingSortD [OF srt con])
  have idem: "arraySort eng ?cmp (arraySort eng ?cmp rows) = arraySort eng ?cmp rows"
    by (rule conforming_idempotent [OF srt con])
  have stable: "filter (\<lambda>u. strictEq (cellAt r (indexOf headers c)) (cellAt u (indexOf headers c)))
              (arraySort eng ?cmp rows)
          = filter (\<lambda>u. strictEq (cellAt r (indexOf headers c)) (cellAt u (indexOf headers c))) rows"
    if r: "r \<in> set rows" for r
  proof -
    from st r have f: "filter (\<lambda>u. ?cmp r u = 0) (arraySort eng ?cmp rows) = filter (\<lambda>u. ?cmp r u = 0) rows"
      unfolding stableSortOf_def by blast
    have "(\<lambda>u. ?cmp r u = 0) = (\<lambda>u. strictEq (cellAt r (indexOf headers c)) (cellAt u (indexOf headers c)))"
      by (rule ext) (simp add: compareRows_def Let_def)
    with f show ?thesis by simp
  qed
  show ?thesis using stable idem by (simp add: s)
qed

text \<open>Evaluation of the comparison function on the quantity column.\<close>

lemma compareRows_numbers:
  "compareRows rnd 0 asc (Some (Num (Fin a)) # x) (Some (Num (Fin b)) # y)
     = (if a = b then 0 else if a < b then - 1 else 1)"
  by (simp add: compareRows_def cellAt_def)

lemma compareRows_number_text:
  "compareRows rnd 0 asc (Some (Num (Fin a)) # x) (Some (Str ''x'') # y) = 1"
  by (simp add: compareRows_def cellAt_def num_eval)

lemma compareRows_text_number:
  "compareRows rnd 0 asc (Some (Str ''x'') # y) (Some (Num (Fin a)) # x) = 1"
  by (simp add: compareRows_def cellAt_def num_eval)

lemmas cmp_eval = compareRows_numbers compareRows_number_text compareRows_text_number

text \<open>
  The text cell makes the comparison function inconsistent on the quantity column: a
  number and the text are each ``greater'' than the other.
\<close>

lemma qty_column_inconsistent: "\<not> consistentOn (compareRows rnd 0 asc) (set qtyRows)"
proof
  let ?n = "[Some (Num (Fin 1)), Some (Num (Fin 0))]"
  let ?t = "[Some (Str ''x''), Some (Num (Fin 4))]"
  assume c: "consistentOn (compareRows rnd 0 asc) (set qtyRows)"
  have n: "?n \<in> set qtyRows" and t: "?t \<in> set qtyRows" by (simp_all add: qtyRows_def)
  have "compareRows rnd 0 asc ?n ?t > 0" and "compareRows rnd 0 asc ?t ?n > 0"
    by (simp_all add: cmp_eval)
  then have "compareRows rnd 0 asc ?n ?n > 0" by (rule consistentOn_greater_trans [OF c n t n])
  then show False by (simp add: cmp_eval)
qed

theorem unstable_sort_counterexample:
  "sortRows v8Engine qtyHeaders qtyView qtyRows =
     [[Some (Num (Fin 1)), Some (Num (Fin 0))],
      [Some (Num (Fin 1)), Some (Num (Fin 1))],
      [Some (Num (Fin 1)), Some (Num (Fin 3))],
      [Some (Num (Fin 1)), Some (Num (Fin 6))],
      [Some (Num (Fin 2)), Some (Num (Fin 2))],
      [Some (Str ''x''), Some (Num (Fin 4))],
      [Some (Num (Fin 1)), Some (Num (Fin 5))]]
   \<and> \<not> stableSortOf (compareRows (roundToDouble v8Engine) 0 asc) qtyRows
         (sortRows v8Engine qtyHeaders qtyView qtyRows)"
proof -
  let ?cmp = "compareRows (roundToDouble v8Engine) 0 asc"
  let ?r0 = "[Some (Num (Fin 1)), Some (Num (Fin 0))]"
  let ?r1 = "[Some (Num (Fin 1)), Some (Num (Fin 1))]"
  let ?r2 = "[Some (Num (Fin 2)), Some (Num (Fin 2))]"
  let ?r3 = "[Some (Num (Fin 1)), Some (Num (Fin 3))]"
  let ?r4 = "[Some (Str ''x''), Some (Num (Fin 4))]"
  let ?r5 = "[Some (Num (Fin 1)), Some (Num (Fin 5))]"
  let ?r6 = "[Some (Num (Fin 1)), Some (Num (Fin 6))]"
  have q: "qtyRows = [?r0, ?r1, ?r2, ?r3, ?r4, ?r5, ?r6]" by (simp add: qtyRows_def)
  have run: "countAndMakeRun ?cmp [?r0, ?r1, ?r2, ?r3, ?r4, ?r5, ?r6]
               = (3, [?r0, ?r1, ?r2, ?r3, ?r4, ?r5, ?r6])"
    by (simp add: countAndMakeRun_def cmp_eval)
  have i3: "binaryInsert ?cmp [?r0, ?r1, ?r2, ?r3, ?r4, ?r5, ?r6] 3
              = [?r0, ?r1, ?r3, ?r2, ?r4, ?r5, ?r6]"
    by (simp add: binaryInsert_def binarySearch.simps cmp_eval)
  have i4: "binaryInsert ?cmp [?r0, ?r1, ?r3, ?r2, ?r4, ?r5, ?r6] 4
              = [?r0, ?r1, ?r3, ?r2, ?r4, ?r5, ?r6]"
    by (simp add: binaryInsert_def binarySearch.simps cmp_eval)
  have i5: "binaryInsert ?cmp [?r0, ?r1, ?r3, ?r2, ?r4, ?r5, ?r6] 5
              = [?r0, ?r1, ?r3, ?r2, ?r4, ?r5, ?r6]"
    by (simp add: binaryInsert_def binarySearch.simps cmp_eval)
  have i6: "binaryInsert ?cmp [?r0, ?r1, ?r3, ?r2, ?r4, ?r5, ?r6] 6
              = [?r0, ?r1, ?r3, ?r6, ?r2, ?r4, ?r5]"
    by (simp add: binaryInsert_def binarySearch.simps cmp_eval)
  have u: "[3..<7] = [3, 4, 5, 6::nat]" by (simp add: upt_rec)
  have len: "length [?r0, ?r1, ?r2, ?r3, ?r4, ?r5, ?r6] = 7" by simp
  have v8: "v8Sort ?cmp [?r0, ?r1, ?r2, ?r3, ?r4, ?r5, ?r6]
              = [?r0, ?r1, ?r3, ?r6, ?r2, ?r4, ?r5]"
    unfolding v8Sort_def v8SortShort_def len run by (simp add: u i3 i4 i5 i6)
  have srt: "arraySort v8Engine = v8Sort" by (simp add: v8Engine_def)
  have out: "sortRows v8Engine qtyHeaders qtyView [?r0, ?r1, ?r2, ?r3, ?r4, ?r5, ?r6]
               = [?r0, ?r1, ?r3, ?r6, ?r2, ?r4, ?r5]"
    by (simp add: sortRows_def srt qtyHeaders_def qtyView_def v8)
  have ne: "filter (\<lambda>y. ?cmp ?r0 y = 0) [?r0, ?r1, ?r3, ?r6, ?r2, ?r4, ?r5]
          \<noteq> filter (\<lambda>y. ?cmp ?r0 y = 0) [?r0, ?r1, ?r2, ?r3, ?r4, ?r5, ?r6]"
    by (simp add: cmp_eval)
  have neg: "\<not> stableSortOf ?cmp [?r0, ?r1, ?r2, ?r3, ?r4, ?r5, ?r6]
                (sortRows v8Engine qtyHeaders qtyView [?r0, ?r1, ?r2, ?r3, ?r4, ?r5, ?r6])"
  proof
    assume a: "stableSortOf ?cmp [?r0, ?r1, ?r2, ?r3, ?r4, ?r5, ?r6]
                (sortRows v8Engine qtyHeaders qtyView [?r0, ?r1, ?r2, ?r3, ?r4, ?r5, ?r6])"
    have "?r0 \<in> set [?r0, ?r1, ?r2, ?r3, ?r4, ?r5, ?r6]" by simp
    with a have "filter (\<lambda>y. ?cmp ?r0 y = 0)
                   (sortRows v8Engine qtyHeaders qtyView [?r0, ?r1, ?r2, ?r3, ?r4, ?r5, ?r6])
                   = filter (\<lambda>y. ?cmp ?r0 y = 0) [?r0, ?r1, ?r2, ?r3, ?r4, ?r5, ?r6]"
      unfolding stableSortOf_def by blast
    then have "filter (\<lambda>y. ?cmp ?r0 y = 0) [?r0, ?r1, ?r3, ?r6, ?r2, ?r4, ?r5]
                 = filter (\<lambda>y. ?cmp ?r0 y = 0) [?r0, ?r1, ?r2, ?r3, ?r4, ?r5, ?r6]"
      by (simp only: out)
    with ne show False by contradiction
  qed
  show ?thesis unfolding q by (rule conjI [OF out neg])
qed

theorem sort_consistent_column_witness:
  "sortRows referenceEngine salesHeaders salesView
     [[Some (Str ''Alice''), Some (Num (Fin 10))], [Some (Str ''Bob''), Some (Num (Fin 20))],
      [Some (Str ''Carol''), Some (Num (Fin 10))]]
   = [[Some (Str ''Bob''), Some (Num (Fin 20))], [Some (Str ''Alice''), Some (Num (Fin 10))],
      [Some (Str ''Carol''), Some (Num (Fin 10))]]
   \<and> sortRows referenceEngine salesHeaders salesView
     [[Some (Str ''Bob''), Some (Num (Fin 20))], [Some (Str ''Alice''), Some (Num (Fin 10))],
      [Some (Str ''Carol''), Some (Num (Fin 10))]]
   = [[Some (Str ''Bob''), Some (Num (Fin 20))], [Some (Str ''Alice''), Some (Num (Fin 10))],
      [Some (Str ''Carol''), Some (Num (Fin 10))]]"
proof -
  let ?rows = "[[Some (Str ''Alice''), Some (Num (Fin 10))], [Some (Str ''Bob''), Some (Num (Fin 20))],
      [Some (Str ''Carol''), Some (Num (Fin 10))]]"
  have c: "conformingSort (arraySort referenceEngine)"
    by (simp add: referenceEngine_def insertionSort_conforming)
  have col: "sortColumn salesView = Some ''Sales''" by (simp add: salesView_def)
  have u: "uniformColumn (indexOf salesHeaders ''Sales'') ?rows"
    by (simp add: uniformColumn_def salesHeaders_def cellAt_def)
  have con: "consistentOn
               (compareRows (roundToDouble referenceEngine) (indexOf salesHeaders ''Sales'')
                  (sortDirection salesView)) (set ?rows)"
    by (rule compareRows_consistent [OF u])
  have e: "sortRows referenceEngine salesHeaders salesView ?rows
     = [[Some (Str ''Bob''), Some (Num (Fin 20))], [Some (Str ''Alice''), Some (Num (Fin 10))],
        [Some (Str ''Carol''), Some (Num (Fin 10))]]"
    by (simp add: sortRows_def referenceEngine_def salesHeaders_def salesView_def insertionSort_def
        compareRows_def cellAt_def)
  from sort_consistent_column [OF c col con]
  have "sortRows referenceEngine salesHeaders salesView
          (sortRows referenceEngine salesHeaders salesView ?rows)
        = sortRows referenceEngine salesHeaders salesView ?rows"
    by (rule conjunct2)
  with e show ?thesis by simp
qed

text \<open>
  C5 (as the code has it). When decoding succeeds, there is at least one data row and at
  least one header, and headers and rows are the first row and the remaining rows of
  the codec's matrix, unchanged; row lengths are not made equal to the header's.
\<close>

theorem decode_success_shape:
  "snd (processExcelFile codec file) = Inr d \<Longrightarrow>
     excel_data d \<noteq> [] \<and> excel_headers d \<noteq> [] \<and>
     (\<exists>wb. codec file = Inr wb \<and> firstSheetJson wb = excel_headers d # excel_data d)"
  by (auto simp: processExcelFile_def Let_def split: if_splits sum.splits list.splits)

theorem ragged_rows_counterexample:
  "snd (processExcelFile
     (\<lambda>f. Inr \<lparr>SheetNames = [''Sheet1''],
               firstSheetJson = [[Some (Str ''A''), Some (Str ''B'')], [Some (Str ''x'')]]\<rparr>) xlsxFile)
   = Inr \<lparr>excel_data = [[Some (Str ''x'')]], excel_headers = [Some (Str ''A''), Some (Str ''B'')],
          excel_sheetNames = [''Sheet1'']\<rparr>
   \<and> length [Some (Str ''x'')] \<noteq> length [Some (Str ''A''), Some (Str ''B'')]"
  by (simp add: processExcelFile_def xlsxFile_def maxSize_def allowedTypes_def)

theorem decode_success_shape_witness:
  "excel_data salesData \<noteq> [] \<and> excel_headers salesData \<noteq> []"
proof -
  have p: "snd (processExcelFile
     (\<lambda>f. Inr \<lparr>SheetNames = [''Sheet1''],
               firstSheetJson = [Some (Str ''Name''), Some (Str ''Sales'')] # salesRows\<rparr>) xlsxFile)
     = Inr salesData"
    by (simp add: processExcelFile_def xlsxFile_def maxSize_def allowedTypes_def salesData_def salesRows_def)
  from decode_success_shape [OF p] show ?thesis by blast
qed

text \<open>
  C6 (as the code has it). Whenever traces are handed to the chart, the layout handed with
  them carries the title \<open>Y vs X\<close> and both axis titles, for every chart type, pie
  included.
\<close>

theorem layout_all_types:
  "lazyChartProps rows headers st = Some (d, lay) \<Longrightarrow>
     lay = \<lparr>layout_title = yAxis st @ '' vs '' @ xAxis st,
            layout_xaxis = Some (xAxis st), layout_yaxis = Some (yAxis st)\<rparr>"
  by (auto simp: lazyChartProps_def chartLayout_def split: option.splits)

theorem pie_layout_counterexample:
  "map_option snd (lazyChartProps salesRows salesHeaders
      \<lparr>xAxis = ''Name'', yAxis = ''Sales'', chartType = pie, error = None\<rparr>)
   = Some \<lparr>layout_title = ''Sales vs Name'', layout_xaxis = Some ''Name'', layout_yaxis = Some ''Sales''\<rparr>"
  by (simp add: lazyChartProps_def chartData_def chartLayout_def salesRows_def salesHeaders_def
      cellAt_def numericY_def isNaN_def)

theorem layout_all_types_witness:
  "lazyChartProps salesRows salesHeaders \<lparr>xAxis = ''Name'', yAxis = ''Sales'', chartType = bar, error = None\<rparr>
   = Some ([\<lparr>trace_type = ''bar'', trace_mode = None,
             trace_x = Some [Str ''Alice'', Str ''Bob''], trace_y = Some [Num (Fin 10), Num (Fin 20)],
             trace_name = Some ''Sales vs Name'', trace_labels = None, trace_values = None,
             trace_marker = SolidColor ''rgba(59, 130, 246, 0.8)''\<rparr>],
           \<lparr>layout_title = ''Sales vs Name'', layout_xaxis = Some ''Name'', layout_yaxis = Some ''Sales''\<rparr>)"
proof -
  have p: "lazyChartProps salesRows salesHeaders \<lparr>xAxis = ''Name'', yAxis = ''Sales'', chartType = bar, error = None\<rparr>
   = Some ([\<lparr>trace_type = ''bar'', trace_mode = None,
             trace_x = Some [Str ''Alice'', Str ''Bob''], trace_y = Some [Num (Fin 10), Num (Fin 20)],
             trace_name = Some ''Sales vs Name'', trace_labels = None, trace_values = None,
             trace_marker = SolidColor ''rgba(59, 130, 246, 0.8)''\<rparr>],
           chartLayout \<lparr>xAxis = ''Name'', yAxis = ''Sales'', chartType = bar, error = None\<rparr>)"
    by (simp add: lazyChartProps_def chartData_def salesRows_def salesHeaders_def
      cellAt_def numericY_def isNaN_def buildTrace_def baseTrace_def)
  from layout_all_types [OF p] p show ?thesis by simp
qed

text \<open>
  C7. A file larger than \<open>10 * 1024 * 1024\<close> bytes is rejected with the size error whatever
  its declared type is and whatever the codec would do with it: the size check comes
  first, and neither the bytes are read nor the codec is called.
\<close>

theorem size_check_first:
  "file_size file > 10 * 1024 * 1024 \<Longrightarrow>
     processExcelFile codec file = ([SetUploadProgress 0], Inl SizeExceeded)"
  by (simp add: processExcelFile_def maxSize_def)

theorem size_check_first_witness:
  "processExcelFile (\<lambda>f. Inl ''unreadable'')
     \<lparr>file_name = ''big.txt'', file_size = 11 * 1024 * 1024, file_type = ''text/plain''\<rparr>
   = ([SetUploadProgress 0], Inl SizeExceeded)"
  using size_check_first [of "\<lparr>file_name = ''big.txt'', file_size = 11 * 1024 * 1024, file_type = ''text/plain''\<rparr>" "\<lambda>f. Inl ''unreadable''"]
  by simp

text \<open>
  C8. The search keeps exactly the rows for which the term is empty or some cell of the
  row, rendered as a string (\<^verbatim>\<open>String(cell)\<close>) and lower-cased, contains the lower-cased
  term as a contiguous substring; the rows kept stay in their order. Holes of a sparse
  row are not cells and match nothing.
\<close>

theorem search_matches:
  "searchFilter fmt term rows =
     filter (\<lambda>r. term = [] \<or>
               (\<exists>c\<in>set r. \<exists>v. c = Some v \<and>
                  sublist (toLowerCase term) (toLowerCase (ToString fmt v)))) rows"
proof (cases "term = []")
  case True
  then show ?thesis by (simp add: searchFilter_def)
next
  case False
  have "rowMatches fmt term =
          (\<lambda>r. \<exists>c\<in>set r. \<exists>v. c = Some v \<and>
                  sublist (toLowerCase term) (toLowerCase (ToString fmt v)))"
    by (rule ext)
      (auto simp: rowMatches_def cellMatches_def list_ex_iff includes_js_sublist split: option.splits)
  with False show ?thesis by (simp add: searchFilter_def)
qed

text \<open>
  The scenario of the specification, then a search that hits a number, and one search
  for each other kind of cell: upper-case term against a boolean, \<^verbatim>\<open>null\<close>, a negative
  number, \<^verbatim>\<open>NaN\<close>, an infinity, an explicit \<^verbatim>\<open>undefined\<close> (the hole of the first row
  does not match), and a Latin-1 capital.
\<close>

theorem search_matches_witness:
  "searchFilter (numberToString referenceEngine) ''bob'' salesRows
     = [[Some (Str ''Bob''), Some (Num (Fin 20))]]
   \<and> searchFilter (numberToString referenceEngine) [] salesRows = salesRows
   \<and> searchFilter (numberToString referenceEngine) ''20'' salesRows
     = [[Some (Str ''Bob''), Some (Num (Fin 20))]]
   \<and> searchFilter (numberToString referenceEngine) ''TRUE'' kindRows = [[Some (Bool True), None]]
   \<and> searchFilter (numberToString referenceEngine) ''null'' kindRows
     = [[Some Null, Some (Num (Fin (- 7)))]]
   \<and> searchFilter (numberToString referenceEngine) ''-7'' kindRows
     = [[Some Null, Some (Num (Fin (- 7)))]]
   \<and> searchFilter (numberToString referenceEngine) ''nan'' kindRows
     = [[Some (Num NaN), Some (Num NegInf)]]
   \<and> searchFilter (numberToString referenceEngine) ''-inf'' kindRows
     = [[Some (Num NaN), Some (Num NegInf)]]
   \<and> searchFilter (numberToString referenceEngine) ''undefined'' kindRows
     = [[Some Undefined, Some (Str [CHR 0xC9, CHR ''t'', CHR 0xE9])]]
   \<and> searchFilter (numberToString referenceEngine) [CHR 0xC9] kindRows
     = [[Some Undefined, Some (Str [CHR 0xC9, CHR ''t'', CHR 0xE9])]]"
proof -
  let ?f = "numberToString referenceEngine"
  note ev = salesRows_def kindRows_def toLowerCase_def toLowerChar_def showInt_def
    showNat.simps digitChar_def sublist_code
  have 1: "searchFilter ?f ''bob'' salesRows = [[Some (Str ''Bob''), Some (Num (Fin 20))]]"
    using search_matches [of ?f "''bob''" salesRows] by (simp add: ev)
  have 2: "searchFilter ?f [] salesRows = salesRows"
    using search_matches [of ?f "[]" salesRows] by simp
  have 3: "searchFilter ?f ''20'' salesRows = [[Some (Str ''Bob''), Some (Num (Fin 20))]]"
    using search_matches [of ?f "''20''" salesRows] by (simp add: ev)
  have 4: "searchFilter ?f ''TRUE'' kindRows = [[Some (Bool True), None]]"
    using search_matches [of ?f "''TRUE''" kindRows] by (simp add: ev)
  have 5: "searchFilter ?f ''null'' kindRows = [[Some Null, Some (Num (Fin (- 7)))]]"
    using search_matches [of ?f "''null''" kindRows] by (simp add: ev)
  have 6: "searchFilter ?f ''-7'' kindRows = [[Some Null, Some (Num (Fin (- 7)))]]"
    using search_matches [of ?f "''-7''" kindRows] by (simp add: ev)
  have 7: "searchFilter ?f ''nan'' kindRows = [[Some (Num NaN), Some (Num NegInf)]]"
    using search_matches [of ?f "''nan''" kindRows] by (simp add: ev)
  have 8: "searchFilter ?f ''-inf'' kindRows = [[Some (Num NaN), Some (Num NegInf)]]"
    using search_matches [of ?f "''-inf''" kindRows] by (simp add: ev)
  have 9: "searchFilter ?f ''undefined'' kindRows
             = [[Some Undefined, Some (Str [CHR 0xC9, CHR ''t'', CHR 0xE9])]]"
    using search_matches [of ?f "''undefined''" kindRows] by (simp add: ev)
  have 10: "searchFilter ?f [CHR 0xC9] kindRows
             = [[Some Undefined, Some (Str [CHR 0xC9, CHR ''t'', CHR 0xE9])]]"
    using search_matches [of ?f "[CHR 0xC9]" kindRows] by (simp add: ev)
  show ?thesis by (simp only: 1 2 3 4 5 6 7 8 9 10 simp_thms)
qed

text \<open>
  C9. After any run of accepted uploads the history holds the records of the five most
  recent uploads, newest first; it never holds more than five, so a sixth upload drops
  the oldest record.
\<close>

theorem history_five_most_recent:
  assumes "list_all (\<lambda>(now, d, f). validUpload d) us"
  shows "uploadHistory (uploads us initialDashboard)
           = take 5 (rev (map (\<lambda>(now, d, f). newUpload now d f) us))
         \<and> length (uploadHistory (uploads us initialDashboard)) \<le> 5"
proof -
  have len: "length (uploadHistory (uploads us initialDashboard)) \<le> 5"
    by (rule uploads_history_length) (simp add: initialDashboard_def)
  from uploads_history_take [OF assms, of initialDashboard]
  have "take 5 (uploadHistory (uploads us initialDashboard))
          = take 5 (rev (map (\<lambda>(now, d, f). newUpload now d f) us))"
    by (simp add: initialDashboard_def)
  with len show ?thesis by simp
qed

theorem history_five_most_recent_witness:
  "map upload_date (uploadHistory (uploads
      [(1, salesData, Some ''a.xlsx''), (2, salesData, Some ''b.xlsx''), (3, salesData, None),
       (4, salesData, Some ''d.xlsx''), (5, salesData, Some ''e.xlsx''), (6, salesData, Some ''f.xlsx'')]
      initialDashboard)) = [6, 5, 4, 3, 2]"
proof -
  have v: "validUpload salesData"
    by (simp add: validUpload_def salesData_def salesRows_def)
  show ?thesis
    using history_five_most_recent [of
      "[(1, salesData, Some ''a.xlsx''), (2, salesData, Some ''b.xlsx''), (3, salesData, None),
        (4, salesData, Some ''d.xlsx''), (5, salesData, Some ''e.xlsx''), (6, salesData, Some ''f.xlsx'')]"]
    by (simp add: v newUpload_def)
qed

text \<open>
  C10. A table cell whose value is falsy (the number \<open>0\<close>, \<^verbatim>\<open>false\<close>, the empty string,
  as well as a missing cell, \<^verbatim>\<open>null\<close> and \<^verbatim>\<open>NaN\<close>) shows the placeholder \<^verbatim>\<open>-\<close>; a
  genuine \<open>0\<close> therefore shows the same as an empty cell.
\<close>

theorem falsy_cell_placeholder:
  "cellAt r (int colIndex) \<in> {Num (Fin 0), Bool False, Str [], Undefined, Null, Num NaN} \<Longrightarrow>
     cellContent r colIndex = Str ''-''"
  by (auto simp: cellContent_def)

theorem falsy_cell_placeholder_witness:
  "cellContent [Some (Num (Fin 0)), None, Some (Bool False), Some (Str [])] 0 = Str ''-''
   \<and> cellContent [Some (Num (Fin 0)), None, Some (Bool False), Some (Str [])] 1 = Str ''-''"
  using falsy_cell_placeholder [of "[Some (Num (Fin 0)), None, Some (Bool False), Some (Str [])]" 0]
    falsy_cell_placeholder [of "[Some (Num (Fin 0)), None, Some (Bool False), Some (Str [])]" 1]
  by (simp add: cellAt_def)

end
